theory Spec2Isabelle
  imports Main "HOL-Library.Multiset"
begin

section \<open>Substitution of indexed virtual generated columns (rule gcSubstituter)\<close>

text \<open>
  This theory embeds \<^verbatim>\<open>planner/core/rule_generate_column_substitute.go\<close>: the collector
  \<^verbatim>\<open>collectGenerateColumn\<close>, the matcher \<^verbatim>\<open>tryToSubstituteExpr\<close>, the expression walker
  \<^verbatim>\<open>substituteExpression\<close>, the plan walker \<^verbatim>\<open>substitute\<close> and the entry point
  \<^verbatim>\<open>optimize\<close>.

  The Go code mutates plan nodes and argument slices in place; here every function takes
  the value and returns the updated one. A Go panic (an index out of range, a method call
  through a nil pointer) is the left injection of a sum type. The packages
  \<^verbatim>\<open>expression\<close>, \<^verbatim>\<open>types\<close>, \<^verbatim>\<open>ast\<close> and the plan node declarations are not part of
  the source file; what the rule needs of them is modelled from the specification and
  marked so. Expressions, columns, schemas and plan nodes are never nil in a plan and have
  no nil in the model; the defining expression of a column and the index of an access path
  can be nil and are options. The session and statement contexts are only handed on to
  \<^verbatim>\<open>Equal\<close> and \<^verbatim>\<open>ReHashCode\<close> and are left out.
\<close>

subsection \<open>Data model\<close>

datatype error = IndexOutOfRange | NilPointerDereference

text \<open>
  Modelled from the spec: the evaluation-type category of \<^verbatim>\<open>types.EvalType\<close>, declared in
  package \<^verbatim>\<open>types\<close>. The specification names it a coarse type class (integer, real, string,
  temporal, etc.); \<open>ETOther\<close> stands for the classes it does not list.
\<close>

datatype evalType = ETInt | ETReal | ETString | ETTemporal | ETOther nat

text \<open>
  Modelled from the spec: the static type \<^verbatim>\<open>types.FieldType\<close>, declared in package
  \<^verbatim>\<open>types\<close>: a category together with the exact width and precision that the category
  leaves out.
\<close>

record fieldType =
  category :: evalType
  width :: nat
  precision :: nat

text \<open>Modelled from the spec: \<^verbatim>\<open>FieldType.EvalType()\<close>, the coarse class of a static type.\<close>

definition EvalType :: "fieldType \<Rightarrow> evalType" where
  "EvalType ft = category ft"

text \<open>
  Modelled from the spec: \<^verbatim>\<open>FieldType.Equal\<close>, the exact equality of two static types
  (category, width and precision all agree).
\<close>

definition TypeEqual :: "fieldType \<Rightarrow> fieldType \<Rightarrow> bool" where
  "TypeEqual ft other =
     (category ft = category other \<and> width ft = width other \<and> precision ft = precision other)"

text \<open>
  Modelled from the spec: the lower-case function names of package \<^verbatim>\<open>ast\<close> that the rule
  dispatches on (\<^verbatim>\<open>ast.EQ\<close>, \<^verbatim>\<open>ast.LT\<close>, ...). Their string values are not in the file, so
  they are the constructors of an enumeration and every other name is \<open>OtherFunc\<close>.
\<close>

datatype funcName =
  EQ | LT | LE | GT | GE | In | Like | LogicOr | LogicAnd | UnaryNot | OtherFunc string

datatype datum = NullDatum | IntDatum int | StringDatum string

text \<open>
  Modelled from the spec: the expression tree of package \<^verbatim>\<open>expression\<close>: a column
  reference, a scalar function (name, return type, ordered arguments) and an opaque leaf.
  A column carries its identity in the plan (\<open>UniqueID\<close>), the identifier of its table
  column (\<open>ID\<close>), its static type and, when it is a virtual generated column, its defining
  expression; \<open>None\<close> is Go's nil. The cached hash code of a scalar function is a function
  of its name and arguments and is not a field of the model: \<^verbatim>\<open>ReHashCode\<close> writes nothing
  else, so it has no counterpart here and expressions are compared up to that cache.
\<close>

datatype column =
  Col (UniqueID: int) (ID: int) (ColRetType: fieldType) (VirtualExpr: "expression option")
and expression =
    Column column
  | ScalarFunction (FuncName: funcName) (RetType: fieldType) (GetArgs: "expression list")
  | Constant datum fieldType

type_synonym schema = "column list"

text \<open>
  \<^verbatim>\<open>ExprColumnMap\<close> is a Go map from expressions to columns. Its keys are interface values
  that hold pointers, so Go identifies two keys when they are the same expression object.
  The model is the list of the entries.
\<close>

type_synonym ExprColumnMap = "(expression \<times> column) list"

text \<open>
  Go does not specify the order in which a \<^verbatim>\<open>range\<close> loop visits the entries of a map, and
  it chooses the order anew for every loop it runs. A schedule stands for these choices of
  one run of the walker: it gives an order to every loop, and a loop is addressed by its
  place in the plan (the path of indices that leads to it from the root). \<open>subSchedule i\<close>
  is the schedule of the \<open>i\<close>-th part of what is being walked. The loop at hand visits the
  entries in the order the schedule gives at the empty address when that is a permutation
  of the map, and in the order of the list otherwise; so every schedule yields a run of the
  Go code, and every choice of orders that Go can make is the run of a schedule.
\<close>

type_synonym schedule = "nat list \<Rightarrow> ExprColumnMap"

definition subSchedule :: "nat \<Rightarrow> schedule \<Rightarrow> schedule" where
  "subSchedule i sched = (\<lambda>address. sched (i # address))"

definition rangeOrder :: "schedule \<Rightarrow> ExprColumnMap \<Rightarrow> ExprColumnMap" where
  "rangeOrder sched exprToColumn =
     (if mset (sched []) = mset exprToColumn then sched [] else exprToColumn)"

text \<open>
  Modelled from the spec: the catalog descriptors of a data source. A table column has an
  identifier and the flags "generated" and "stored"; an index lists the offsets of its key
  columns in the table's column list; an access path is a full scan or an index.
\<close>

record columnInfo =
  ColumnID :: int
  IsGenerated :: bool
  GeneratedStored :: bool

record indexColumn =
  Offset :: int

record indexInfo =
  IndexColumns :: "indexColumn list"

record accessPath =
  IsTablePath :: bool
  Index :: "indexInfo option"

record tableInfoRec =
  TableColumns :: "columnInfo list"

record byItem =
  Expr :: expression
  Desc :: bool

record aggFuncDesc =
  AggName :: string
  AggArgs :: "expression list"

text \<open>
  Modelled from the spec: the logical plan. A node has a kind with the expression fields
  of that kind, an output schema and an ordered list of children. The kinds the rule
  tells apart are the data source, selection, projection, sort and aggregation; every
  other operator is \<open>OtherPlan\<close>.
\<close>

datatype planNode =
    DataSource (possibleAccessPaths: "accessPath list") (tableInfo: tableInfoRec)
  | LogicalSelection (Conditions: "expression list")
  | LogicalProjection (Exprs: "expression list")
  | LogicalSort (ByItems: "byItem list")
  | LogicalAggregation (AggFuncs: "aggFuncDesc list") (GroupByItems: "expression list")
  | OtherPlan

datatype LogicalPlan =
  Plan (node: planNode) (Schema: schema) (Children: "LogicalPlan list")

subsection \<open>Operations of package expression\<close>

fun GetType :: "expression \<Rightarrow> fieldType" where
  "GetType (Column c) = ColRetType c"
| "GetType (ScalarFunction f rt as) = rt"
| "GetType (Constant d rt) = rt"

text \<open>
  Modelled from the spec: \<^verbatim>\<open>Expression.Equal\<close>, a deep structural equality that also
  accounts for the types. On the tree of the model that is the equality of the datatype.
\<close>

definition Equal :: "expression \<Rightarrow> expression \<Rightarrow> bool" where
  "Equal e candidate = (e = candidate)"

text \<open>
  Modelled from the spec: \<^verbatim>\<open>Schema.ColumnIndex\<close>, the position at which a column is found
  in a schema by its identity, and \<open>-1\<close> when it is not there.
\<close>

fun ColumnIndex :: "schema \<Rightarrow> column \<Rightarrow> int" where
  "ColumnIndex [] col = - 1"
| "ColumnIndex (c # cs) col =
     (if UniqueID c = UniqueID col then 0
      else (let i = ColumnIndex cs col in if i = - 1 then - 1 else i + 1))"

text \<open>
  Modelled from the spec: \<^verbatim>\<open>expression.ColInfo2Col\<close>, which resolves the schema column of a
  table-column descriptor: the first column with the descriptor's identifier, nil if none.
\<close>

fun ColInfo2Col :: "column list \<Rightarrow> columnInfo \<Rightarrow> column option" where
  "ColInfo2Col [] colInfo = None"
| "ColInfo2Col (c # cs) colInfo =
     (if ID c = ColumnID colInfo then Some c else ColInfo2Col cs colInfo)"

subsection \<open>The matcher\<close>

definition tryToSubstituteExpr ::
  "expression \<Rightarrow> expression \<Rightarrow> evalType \<Rightarrow> schema \<Rightarrow> column \<Rightarrow> expression" where
  "tryToSubstituteExpr expr candidateExpr tp schema col =
     (if Equal expr candidateExpr \<and> EvalType (GetType candidateExpr) = tp \<and>
         ColumnIndex schema col \<noteq> - 1
      then Column col else expr)"

text \<open>
  A \<^verbatim>\<open>range\<close> loop over the map that offers every candidate to one slot, as
  \<^verbatim>\<open>substituteExpression\<close> and the projection and sort branches of \<^verbatim>\<open>substitute\<close> write it.
  The first argument is the map in the order in which this loop visits its entries.
\<close>

definition substituteCandidates ::
  "ExprColumnMap \<Rightarrow> expression \<Rightarrow> evalType \<Rightarrow> schema \<Rightarrow> expression" where
  "substituteCandidates exprToColumn expr tp schema =
     fold (\<lambda>(candidateExpr, column) e. tryToSubstituteExpr e candidateExpr tp schema column)
       exprToColumn expr"

text \<open>
  The same loop as the aggregation branch of \<^verbatim>\<open>substitute\<close> writes it, with the three
  checks in the loop body instead of a call of \<^verbatim>\<open>tryToSubstituteExpr\<close>.
\<close>

definition substituteInline ::
  "ExprColumnMap \<Rightarrow> expression \<Rightarrow> evalType \<Rightarrow> schema \<Rightarrow> expression" where
  "substituteInline exprToColumn expr tp schema =
     fold (\<lambda>(candidateExpr, column) e.
             if Equal e candidateExpr \<and> EvalType (GetType candidateExpr) = tp \<and>
                ColumnIndex schema column \<noteq> - 1
             then Column column else e)
       exprToColumn expr"

subsection \<open>Loops that may panic\<close>

fun foldErr :: "('s \<Rightarrow> 'a \<Rightarrow> error + 's) \<Rightarrow> 's \<Rightarrow> 'a list \<Rightarrow> error + 's" where
  "foldErr f s [] = Inr s"
| "foldErr f s (x # xs) = (case f s x of Inl e \<Rightarrow> Inl e | Inr s' \<Rightarrow> foldErr f s' xs)"

text \<open>
  A loop over a slice that rewrites each element, with the index of the element at hand
  (counted from \<open>n\<close>): \<open>mapIdx\<close> when the body cannot panic, \<open>mapErr\<close> when it can.
\<close>

fun mapIdx :: "(nat \<Rightarrow> 'a \<Rightarrow> 'b) \<Rightarrow> nat \<Rightarrow> 'a list \<Rightarrow> 'b list" where
  "mapIdx f n [] = []"
| "mapIdx f n (x # xs) = f n x # mapIdx f (Suc n) xs"

fun mapErr :: "(nat \<Rightarrow> 'a \<Rightarrow> error + 'b) \<Rightarrow> nat \<Rightarrow> 'a list \<Rightarrow> error + 'b list" where
  "mapErr f n [] = Inr []"
| "mapErr f n (x # xs) =
     (case f n x of Inl e \<Rightarrow> Inl e
      | Inr y \<Rightarrow> (case mapErr f (Suc n) xs of Inl e \<Rightarrow> Inl e | Inr ys \<Rightarrow> Inr (y # ys)))"

subsection \<open>The collector\<close>

text \<open>
  The assignment \<^verbatim>\<open>exprToColumn[col.VirtualExpr] = col\<close>. The key is the defining expression
  object of the column object \<open>col\<close>, compared by pointer: storing the same column again
  leaves the map as it is, and two different columns keep an entry each, also when their
  defining expressions look alike (distinct column objects are taken to own distinct
  defining-expression objects). A value carries no address, so the model identifies an
  entry by the pair (defining expression, column); a new entry goes to the end of the list.
\<close>

definition mapStore :: "ExprColumnMap \<Rightarrow> expression \<Rightarrow> column \<Rightarrow> ExprColumnMap" where
  "mapStore exprToColumn e col =
     (if (e, col) \<in> set exprToColumn then exprToColumn else exprToColumn @ [(e, col)])"

text \<open>
  The body of the loop over \<^verbatim>\<open>p.Index.Columns\<close>. Indexing \<^verbatim>\<open>ds.tableInfo.Columns\<close> out of
  range panics, and so does \<^verbatim>\<open>col.VirtualExpr.GetType()\<close> on a nil defining expression.
\<close>

definition collectIndexColumn ::
  "schema \<Rightarrow> tableInfoRec \<Rightarrow> ExprColumnMap \<Rightarrow> indexColumn \<Rightarrow> error + ExprColumnMap" where
  "collectIndexColumn s ti exprToColumn idxPart =
     (if Offset idxPart < 0 \<or> int (length (TableColumns ti)) \<le> Offset idxPart
      then Inl IndexOutOfRange
      else
        (let colInfo = TableColumns ti ! nat (Offset idxPart) in
         if IsGenerated colInfo \<and> \<not> GeneratedStored colInfo then
           (case ColInfo2Col s colInfo of
              None \<Rightarrow> Inr exprToColumn
            | Some col \<Rightarrow>
                (case VirtualExpr col of
                   None \<Rightarrow> Inl NilPointerDereference
                 | Some ve \<Rightarrow>
                     if TypeEqual (ColRetType col) (GetType ve)
                     then Inr (mapStore exprToColumn ve col)
                     else Inr exprToColumn))
         else Inr exprToColumn))"

text \<open>The body of the loop over \<^verbatim>\<open>ds.possibleAccessPaths\<close>; a nil \<^verbatim>\<open>p.Index\<close> panics.\<close>

definition collectAccessPath ::
  "schema \<Rightarrow> tableInfoRec \<Rightarrow> ExprColumnMap \<Rightarrow> accessPath \<Rightarrow> error + ExprColumnMap" where
  "collectAccessPath s ti exprToColumn p =
     (if IsTablePath p then Inr exprToColumn
      else
        (case Index p of
           None \<Rightarrow> Inl NilPointerDereference
         | Some idx \<Rightarrow> foldErr (collectIndexColumn s ti) exprToColumn (IndexColumns idx)))"

fun collectGenerateColumn :: "LogicalPlan \<Rightarrow> ExprColumnMap \<Rightarrow> error + ExprColumnMap"
  and collectChildren :: "LogicalPlan list \<Rightarrow> ExprColumnMap \<Rightarrow> error + ExprColumnMap" where
  "collectGenerateColumn (Plan nd s cs) exprToColumn =
     (case collectChildren cs exprToColumn of
        Inl e \<Rightarrow> Inl e
      | Inr m \<Rightarrow>
          (case nd of
             DataSource paths ti \<Rightarrow> foldErr (collectAccessPath s ti) m paths
           | _ \<Rightarrow> Inr m))"
| "collectChildren [] exprToColumn = Inr exprToColumn"
| "collectChildren (child # cs) exprToColumn =
     (case collectGenerateColumn child exprToColumn of
        Inl e \<Rightarrow> Inl e
      | Inr m \<Rightarrow> collectChildren cs m)"

subsection \<open>The expression walker\<close>

text \<open>
  \<^verbatim>\<open>substituteExpression\<close> returns nothing and rewrites the argument slice of \<open>cond\<close>; the
  model returns the rewritten expression. \<^verbatim>\<open>sf.GetArgs()[i]\<close> panics when the function has
  no such argument. In the comparison branch the arguments are read inside the loops over
  the map, so an empty map reads nothing. The two loops of a comparison are two \<^verbatim>\<open>range\<close>
  statements, each with an order of its own: parts 0 and 1 of the schedule. A recursive
  call walks an operand with the part of the schedule that has the operand's index. The
  deferred \<^verbatim>\<open>ReHashCode\<close> runs for every scalar function, also for one whose name the
  walker does not know, and writes only the cached hash, which the model leaves out (see
  the data model).
\<close>

fun substituteExpression ::
  "expression \<Rightarrow> schedule \<Rightarrow> ExprColumnMap \<Rightarrow> schema \<Rightarrow> error + expression" where
  "substituteExpression (ScalarFunction f rt args) sched exprToColumn schema =
     (if f = EQ \<or> f = LT \<or> f = LE \<or> f = GT \<or> f = GE then
        (if exprToColumn = [] then Inr (ScalarFunction f rt args)
         else
           (case args of
              a0 # a1 # rest \<Rightarrow>
                (let b1 = substituteCandidates (rangeOrder (subSchedule 0 sched) exprToColumn)
                            a1 (EvalType (GetType a0)) schema;
                     b0 = substituteCandidates (rangeOrder (subSchedule 1 sched) exprToColumn)
                            a0 (EvalType (GetType b1)) schema
                 in Inr (ScalarFunction f rt (b0 # b1 # rest)))
            | _ \<Rightarrow> Inl IndexOutOfRange))
      else if f = In then
        (case args of
           a0 # a1 # rest \<Rightarrow>
             (let tp = EvalType (GetType a1);
                  canSubstitute = list_all (\<lambda>a. EvalType (GetType a) = tp) (a1 # rest)
              in if canSubstitute
                 then Inr (ScalarFunction f rt
                             (substituteCandidates (rangeOrder (subSchedule 0 sched) exprToColumn)
                                a0 tp schema # a1 # rest))
                 else Inr (ScalarFunction f rt args))
         | _ \<Rightarrow> Inl IndexOutOfRange)
      else if f = Like then
        (case args of
           a0 # a1 # rest \<Rightarrow>
             Inr (ScalarFunction f rt
                    (substituteCandidates (rangeOrder (subSchedule 0 sched) exprToColumn)
                       a0 (EvalType (GetType a1)) schema
                       # a1 # rest))
         | _ \<Rightarrow> Inl IndexOutOfRange)
      else if f = LogicOr \<or> f = LogicAnd then
        (case args of
           a0 # a1 # rest \<Rightarrow>
             (case substituteExpression a0 (subSchedule 0 sched) exprToColumn schema of
                Inl e \<Rightarrow> Inl e
              | Inr b0 \<Rightarrow>
                  (case substituteExpression a1 (subSchedule 1 sched) exprToColumn schema of
                     Inl e \<Rightarrow> Inl e
                   | Inr b1 \<Rightarrow> Inr (ScalarFunction f rt (b0 # b1 # rest))))
         | _ \<Rightarrow> Inl IndexOutOfRange)
      else if f = UnaryNot then
        (case args of
           a0 # rest \<Rightarrow>
             (case substituteExpression a0 (subSchedule 0 sched) exprToColumn schema of
                Inl e \<Rightarrow> Inl e
              | Inr b0 \<Rightarrow> Inr (ScalarFunction f rt (b0 # rest)))
         | _ \<Rightarrow> Inl IndexOutOfRange)
      else Inr (ScalarFunction f rt args))"
| "substituteExpression cond sched exprToColumn schema = Inr cond"

subsection \<open>The plan walker and the entry point\<close>

text \<open>
  The type switch of \<^verbatim>\<open>substitute\<close> on the node at hand. Every slot has its own loop over
  the map, so the loop of the slot with index \<open>i\<close> takes its order from part \<open>i\<close> of the
  schedule (in an aggregation: part \<open>j\<close> of part \<open>i\<close> of part 0 for argument \<open>j\<close> of function
  \<open>i\<close>, part \<open>j\<close> of part 1 for group-by item \<open>j\<close>). The projection reads \<^verbatim>\<open>x.children[0]\<close>
  in the body of its inner loop, so it panics on a projection without children only when
  there is an expression and a candidate to run the body.
\<close>

definition substituteNode ::
  "planNode \<Rightarrow> schema \<Rightarrow> LogicalPlan list \<Rightarrow> schedule \<Rightarrow> ExprColumnMap \<Rightarrow> error + planNode" where
  "substituteNode nd s cs sched exprToColumn =
     (case nd of
        LogicalSelection conds \<Rightarrow>
          (case mapErr (\<lambda>i cond. substituteExpression cond (subSchedule i sched) exprToColumn s)
                  0 conds of
             Inl e \<Rightarrow> Inl e
           | Inr conds' \<Rightarrow> Inr (LogicalSelection conds'))
      | LogicalProjection exprs \<Rightarrow>
          (if exprs = [] \<or> exprToColumn = [] then Inr nd
           else
             (case cs of
                [] \<Rightarrow> Inl IndexOutOfRange
              | child # _ \<Rightarrow>
                  Inr (LogicalProjection
                         (mapIdx (\<lambda>i e. substituteCandidates
                                          (rangeOrder (subSchedule i sched) exprToColumn)
                                          e (EvalType (GetType e)) (Schema child)) 0 exprs))))
      | LogicalSort items \<Rightarrow>
          Inr (LogicalSort
                 (mapIdx (\<lambda>i it. it\<lparr>Expr := substituteCandidates
                                              (rangeOrder (subSchedule i sched) exprToColumn)
                                              (Expr it) (EvalType (GetType (Expr it))) s\<rparr>)
                    0 items))
      | LogicalAggregation aggs gbs \<Rightarrow>
          Inr (LogicalAggregation
                 (mapIdx (\<lambda>i aggFunc. aggFunc\<lparr>AggArgs :=
                            mapIdx (\<lambda>j a. substituteInline
                                             (rangeOrder
                                                (subSchedule j (subSchedule i (subSchedule 0 sched)))
                                                exprToColumn)
                                             a (EvalType (GetType a)) s)
                              0 (AggArgs aggFunc)\<rparr>) 0 aggs)
                 (mapIdx (\<lambda>j g. substituteInline
                                   (rangeOrder (subSchedule j (subSchedule 1 sched)) exprToColumn)
                                   g (EvalType (GetType g)) s) 0 gbs))
      | _ \<Rightarrow> Inr nd)"

text \<open>
  \<^verbatim>\<open>substitute\<close> rewrites the node with part 0 of the schedule and then walks the children,
  child \<open>i\<close> with part \<open>i\<close> of part 1.
\<close>

fun substitute :: "LogicalPlan \<Rightarrow> schedule \<Rightarrow> ExprColumnMap \<Rightarrow> error + LogicalPlan"
  and substituteChildren ::
    "LogicalPlan list \<Rightarrow> nat \<Rightarrow> schedule \<Rightarrow> ExprColumnMap \<Rightarrow> error + LogicalPlan list" where
  "substitute (Plan nd s cs) sched exprToColumn =
     (case substituteNode nd s cs (subSchedule 0 sched) exprToColumn of
        Inl e \<Rightarrow> Inl e
      | Inr nd' \<Rightarrow>
          (case substituteChildren cs 0 (subSchedule 1 sched) exprToColumn of
             Inl e \<Rightarrow> Inl e
           | Inr cs' \<Rightarrow> Inr (Plan nd' s cs')))"
| "substituteChildren [] n sched exprToColumn = Inr []"
| "substituteChildren (child # cs) n sched exprToColumn =
     (case substitute child (subSchedule n sched) exprToColumn of
        Inl e \<Rightarrow> Inl e
      | Inr child' \<Rightarrow>
          (case substituteChildren cs (Suc n) sched exprToColumn of
             Inl e \<Rightarrow> Inl e
           | Inr cs' \<Rightarrow> Inr (child' # cs')))"

text \<open>
  \<^verbatim>\<open>optimize\<close> returns the plan and an error that is always nil: \<open>Inr\<close> is that normal
  return, \<open>Inl\<close> a panic of the collector or of the walker. The schedule is the run's choice
  of the orders of the walker's loops.
\<close>

definition optimize :: "schedule \<Rightarrow> LogicalPlan \<Rightarrow> error + LogicalPlan" where
  "optimize sched lp =
     (case collectGenerateColumn lp [] of
        Inl e \<Rightarrow> Inl e
      | Inr exprToColumn \<Rightarrow>
          if length exprToColumn = 0 then Inr lp else substitute lp sched exprToColumn)"

subsection \<open>What the specification says the collector gathers\<close>

text \<open>
  The data-source nodes of a plan, each with its schema, its access paths and its table.
\<close>

fun dataSources :: "LogicalPlan \<Rightarrow> (schema \<times> accessPath list \<times> tableInfoRec) list" where
  "dataSources (Plan nd s cs) =
     (case nd of DataSource paths ti \<Rightarrow> [(s, paths, ti)] | _ \<Rightarrow> []) @
     concat (map dataSources cs)"

text \<open>
  The candidates of one data source, in the words of the specification: for every index
  access path (full scans contribute nothing) and every key column of the index, the table
  column at the key's offset, if it is generated and not stored, resolves to a schema
  column whose static type equals exactly the type of its defining expression.
\<close>

definition candidateEntries ::
  "schema \<Rightarrow> accessPath list \<Rightarrow> tableInfoRec \<Rightarrow> (expression \<times> column) list" where
  "candidateEntries s paths ti =
     [(e, col).
        p \<leftarrow> paths, \<not> IsTablePath p,
        idx \<leftarrow> (case Index p of None \<Rightarrow> [] | Some i \<Rightarrow> [i]),
        idxPart \<leftarrow> IndexColumns idx,
        0 \<le> Offset idxPart, nat (Offset idxPart) < length (TableColumns ti),
        colInfo \<leftarrow> [TableColumns ti ! nat (Offset idxPart)],
        IsGenerated colInfo, \<not> GeneratedStored colInfo,
        col \<leftarrow> (case ColInfo2Col s colInfo of None \<Rightarrow> [] | Some c \<Rightarrow> [c]),
        e \<leftarrow> (case VirtualExpr col of None \<Rightarrow> [] | Some v \<Rightarrow> [v]),
        TypeEqual (ColRetType col) (GetType e)]"

definition planCandidates :: "LogicalPlan \<Rightarrow> (expression \<times> column) set" where
  "planCandidates lp =
     set (concat (map (\<lambda>(s, paths, ti). candidateEntries s paths ti) (dataSources lp)))"

text \<open>
  The catalog data on which the collector does not panic: every index path has its index,
  every key offset lies in the table's column list, and a virtual generated column that
  resolves to a schema column has its defining expression attached.
\<close>

definition indexColumnOK :: "schema \<Rightarrow> tableInfoRec \<Rightarrow> indexColumn \<Rightarrow> bool" where
  "indexColumnOK s ti idxPart =
     (0 \<le> Offset idxPart \<and> nat (Offset idxPart) < length (TableColumns ti) \<and>
      (let colInfo = TableColumns ti ! nat (Offset idxPart) in
       if IsGenerated colInfo \<and> \<not> GeneratedStored colInfo then
         (case ColInfo2Col s colInfo of None \<Rightarrow> True | Some col \<Rightarrow> VirtualExpr col \<noteq> None)
       else True))"

definition accessPathOK :: "schema \<Rightarrow> tableInfoRec \<Rightarrow> accessPath \<Rightarrow> bool" where
  "accessPathOK s ti p =
     (if IsTablePath p then True
      else (case Index p of
              None \<Rightarrow> False
            | Some idx \<Rightarrow> list_all (indexColumnOK s ti) (IndexColumns idx)))"

definition catalogOK :: "LogicalPlan \<Rightarrow> bool" where
  "catalogOK lp =
     list_all (\<lambda>(s, paths, ti). list_all (accessPathOK s ti) paths) (dataSources lp)"

text \<open>
  The other order of the two loops of a comparison, which the code does not use: the left
  operand first, with the type of the right one, then the right operand with the type of
  the left one as it is by then. \<open>o1\<close> and \<open>o2\<close> are the orders of the two loops.
\<close>

definition comparisonLeftFirst ::
  "funcName \<Rightarrow> fieldType \<Rightarrow> expression \<Rightarrow> expression \<Rightarrow> expression list \<Rightarrow>
   ExprColumnMap \<Rightarrow> ExprColumnMap \<Rightarrow> schema \<Rightarrow> expression" where
  "comparisonLeftFirst f rt a0 a1 rest o1 o2 schema =
     (let b0 = substituteCandidates o1 a0 (EvalType (GetType a1)) schema;
          b1 = substituteCandidates o2 a1 (EvalType (GetType b0)) schema
      in ScalarFunction f rt (b0 # b1 # rest))"

text \<open>
  A candidate matches a slot when the three checks of the matcher hold for it.
\<close>

definition matches ::
  "expression \<Rightarrow> evalType \<Rightarrow> schema \<Rightarrow> expression \<times> column \<Rightarrow> bool" where
  "matches expr tp schema entry =
     (Equal expr (fst entry) \<and> EvalType (GetType (fst entry)) = tp \<and>
      ColumnIndex schema (snd entry) \<noteq> - 1)"

text \<open>
  Every column of the map has exactly the static type of its defining expression; the
  collector stores no other entry.
\<close>

definition typeExact :: "ExprColumnMap \<Rightarrow> bool" where
  "typeExact exprToColumn =
     list_all (\<lambda>(e, col). TypeEqual (ColRetType col) (GetType e)) exprToColumn"

text \<open>
  No defining expression of the map is a bare reference to a column of the map, that is,
  no candidate column is defined as just another candidate column.
\<close>

definition noColumnChain :: "ExprColumnMap \<Rightarrow> bool" where
  "noColumnChain exprToColumn =
     list_all (\<lambda>(e, col). list_all (\<lambda>(e', col'). e' \<noteq> Column col) exprToColumn) exprToColumn"

text \<open>
  The evaluation-type categories of the operands of the comparisons, IN and LIKE functions
  that the walker reaches in a condition; the slots it offers the candidates are among
  them. Then the categories of the slots of a plan: the conditions of a selection, the
  expressions of a projection, the keys of a sort, the arguments and group-by items of an
  aggregation.
\<close>

fun slotCategories :: "expression \<Rightarrow> evalType list" where
  "slotCategories (ScalarFunction f rt args) =
     (if f = EQ \<or> f = LT \<or> f = LE \<or> f = GT \<or> f = GE \<or> f = In \<or> f = Like
      then map (\<lambda>a. EvalType (GetType a)) args
      else if f = LogicOr \<or> f = LogicAnd \<or> f = UnaryNot
      then concat (map slotCategories args)
      else [])"
| "slotCategories e = []"

definition nodeCategories :: "planNode \<Rightarrow> evalType list" where
  "nodeCategories nd =
     (case nd of
        LogicalSelection conds \<Rightarrow> concat (map slotCategories conds)
      | LogicalProjection exprs \<Rightarrow> map (\<lambda>e. EvalType (GetType e)) exprs
      | LogicalSort items \<Rightarrow> map (\<lambda>it. EvalType (GetType (Expr it))) items
      | LogicalAggregation aggs gbs \<Rightarrow>
          concat (map (\<lambda>aggFunc. map (\<lambda>a. EvalType (GetType a)) (AggArgs aggFunc)) aggs) @
          map (\<lambda>g. EvalType (GetType g)) gbs
      | _ \<Rightarrow> [])"

fun planCategories :: "LogicalPlan \<Rightarrow> evalType list" where
  "planCategories (Plan nd s cs) = nodeCategories nd @ concat (map planCategories cs)"

text \<open>
  Plans on which the walker does not panic: in the conditions of a selection every
  comparison, IN and LIKE has its two operands, every AND and OR its two operands and
  every NOT its operand, as far as the walker descends; and a projection has a child.
\<close>

fun operandsPresent :: "expression \<Rightarrow> bool" where
  "operandsPresent (ScalarFunction f rt args) =
     (if f = EQ \<or> f = LT \<or> f = LE \<or> f = GT \<or> f = GE \<or> f = In \<or> f = Like
      then 2 \<le> length args
      else if f = LogicOr \<or> f = LogicAnd
      then (case args of a0 # a1 # rest \<Rightarrow> operandsPresent a0 \<and> operandsPresent a1
            | _ \<Rightarrow> False)
      else if f = UnaryNot
      then (case args of a0 # rest \<Rightarrow> operandsPresent a0 | _ \<Rightarrow> False)
      else True)"
| "operandsPresent e = True"

fun planOK :: "LogicalPlan \<Rightarrow> bool" where
  "planOK (Plan nd s cs) =
     ((case nd of
         LogicalSelection conds \<Rightarrow> list_all operandsPresent conds
       | LogicalProjection exprs \<Rightarrow> cs \<noteq> []
       | _ \<Rightarrow> True) \<and>
      list_all planOK cs)"

subsection \<open>An example table\<close>

text \<open>
  Table \<open>T\<close> with a plain column \<open>A\<close>, a virtual generated column \<open>C\<close> defined as \<open>f(A)\<close>, a
  stored generated column \<open>S\<close>, and a virtual generated column \<open>D\<close> defined as \<open>C\<close>; all of
  integer type. \<open>N\<close> is a string-typed column whose defining expression is \<open>f(A)\<close> too.
\<close>

definition tyInt :: fieldType where
  "tyInt = \<lparr>category = ETInt, width = 11, precision = 0\<rparr>"

definition tyStr :: fieldType where
  "tyStr = \<lparr>category = ETString, width = 20, precision = 0\<rparr>"

definition colA :: column where
  "colA = Col 1 1 tyInt None"

definition exprF :: expression where
  "exprF = ScalarFunction (OtherFunc ''f'') tyInt [Column colA]"

definition colC :: column where
  "colC = Col 2 2 tyInt (Some exprF)"

definition colS :: column where
  "colS = Col 3 3 tyInt None"

definition colD :: column where
  "colD = Col 4 4 tyInt (Some (Column colC))"

definition colN :: column where
  "colN = Col 5 5 tyStr (Some exprF)"

definition five :: expression where
  "five = Constant (IntDatum 5) tyInt"

definition strX :: expression where
  "strX = Constant (StringDatum ''x'') tyStr"

definition tableT :: tableInfoRec where
  "tableT = \<lparr>TableColumns =
     [\<lparr>ColumnID = 1, IsGenerated = False, GeneratedStored = False\<rparr>,
      \<lparr>ColumnID = 2, IsGenerated = True, GeneratedStored = False\<rparr>,
      \<lparr>ColumnID = 3, IsGenerated = True, GeneratedStored = True\<rparr>,
      \<lparr>ColumnID = 4, IsGenerated = True, GeneratedStored = False\<rparr>]\<rparr>"

definition indexOn :: "int \<Rightarrow> accessPath" where
  "indexOn off = \<lparr>IsTablePath = False, Index = Some \<lparr>IndexColumns = [\<lparr>Offset = off\<rparr>]\<rparr>\<rparr>"

definition tablePath :: accessPath where
  "tablePath = \<lparr>IsTablePath = True, Index = None\<rparr>"

text \<open>\<open>T\<close> scanned with an index on \<open>C\<close> and an index on \<open>S\<close>.\<close>

definition scanT :: LogicalPlan where
  "scanT = Plan (DataSource [tablePath, indexOn 1, indexOn 2] tableT) [colA, colC, colS] []"

text \<open>\<open>T\<close> scanned with an index on \<open>S\<close> only.\<close>

definition scanStored :: LogicalPlan where
  "scanStored = Plan (DataSource [tablePath, indexOn 2] tableT) [colA, colC, colS] []"

text \<open>\<open>T\<close> scanned with an index on \<open>D\<close> and an index on \<open>C\<close>.\<close>

definition scanChain :: LogicalPlan where
  "scanChain =
     Plan (DataSource [indexOn 3, indexOn 1] tableT) [colA, colC, colS, colD] []"

definition mapC :: ExprColumnMap where
  "mapC = [(exprF, colC)]"

text \<open>
  \<open>C2\<close>, a second virtual generated column defined as \<open>f(A)\<close>, in a table \<open>T2\<close> with \<open>A\<close>,
  \<open>C\<close> and \<open>C2\<close>, scanned with an index on \<open>C\<close> and an index on \<open>C2\<close>.
\<close>

definition colC2 :: column where
  "colC2 = Col 6 6 tyInt (Some exprF)"

definition tableT2 :: tableInfoRec where
  "tableT2 = \<lparr>TableColumns =
     [\<lparr>ColumnID = 1, IsGenerated = False, GeneratedStored = False\<rparr>,
      \<lparr>ColumnID = 2, IsGenerated = True, GeneratedStored = False\<rparr>,
      \<lparr>ColumnID = 6, IsGenerated = True, GeneratedStored = False\<rparr>]\<rparr>"

definition scanTwin :: LogicalPlan where
  "scanTwin = Plan (DataSource [indexOn 1, indexOn 2] tableT2) [colA, colC, colC2] []"

definition mapTwin :: ExprColumnMap where
  "mapTwin = [(exprF, colC), (exprF, colC2)]"

text \<open>The schedule in which every loop visits the entries in the order of the list.\<close>

definition listOrder :: schedule where
  "listOrder address = []"

text \<open>
  A schedule for a comparison: its second loop, the one of the left operand, visits \<open>C2\<close>
  before \<open>C\<close>, and the first loop visits the entries in the order of the list.
\<close>

definition secondLoopReversed :: schedule where
  "secondLoopReversed address =
     (if address = [1] then [(exprF, colC2), (exprF, colC)] else [])"

text \<open>
  The same for a selection at the root of a plan with the comparison as its first
  condition.
\<close>

definition leftLoopReversed :: schedule where
  "leftLoopReversed address =
     (if address = [0, 0, 1] then [(exprF, colC2), (exprF, colC)] else [])"

text \<open>A sort on one key above a child, with a given schema.\<close>

definition sortBy :: "expression \<Rightarrow> schema \<Rightarrow> LogicalPlan \<Rightarrow> LogicalPlan" where
  "sortBy e s child = Plan (LogicalSort [\<lparr>Expr = e, Desc = False\<rparr>]) s [child]"

section \<open>Properties\<close>

subsection \<open>Auxiliary facts\<close>

lemmas ex_defs = tyInt_def tyStr_def colA_def exprF_def colC_def colS_def colD_def colN_def
  colC2_def five_def strX_def Equal_def EvalType_def

lemmas run_defs = substituteCandidates_def substituteInline_def tryToSubstituteExpr_def
  mapC_def mapTwin_def substituteNode_def comparisonLeftFirst_def Let_def sortBy_def
  rangeOrder_def subSchedule_def listOrder_def leftLoopReversed_def
  secondLoopReversed_def

lemmas scan_defs = scanT_def scanStored_def scanChain_def scanTwin_def tableT_def
  tableT2_def indexOn_def tablePath_def collectAccessPath_def collectIndexColumn_def mapStore_def TypeEqual_def

lemma ColumnIndex_ge: "- 1 \<le> ColumnIndex s col"
  by (induction s) (auto simp: Let_def)

lemma ColumnIndex_found:
  "ColumnIndex s col \<noteq> - 1 \<longleftrightarrow> (\<exists>c \<in> set s. UniqueID c = UniqueID col)"
proof (induction s)
  case Nil
  then show ?case by simp
next
  case (Cons a s)
  have "ColumnIndex s col + 1 \<noteq> - 1"
    using ColumnIndex_ge [of s col] by arith
  with Cons show ?case by (auto simp: Let_def)
qed

lemma substituteInline_eq:
  "substituteInline M e tp s = substituteCandidates M e tp s"
  by (simp add: substituteInline_def substituteCandidates_def tryToSubstituteExpr_def)

lemma substituteCandidates_Nil [simp]: "substituteCandidates [] e tp s = e"
  by (simp add: substituteCandidates_def)

lemma substituteCandidates_Cons:
  "substituteCandidates (entry # M) e tp s =
     substituteCandidates M (tryToSubstituteExpr e (fst entry) tp s (snd entry)) tp s"
  by (cases entry) (simp add: substituteCandidates_def)

lemma tryToSubstituteExpr_matches:
  "tryToSubstituteExpr e (fst entry) tp s (snd entry) =
     (if matches e tp s entry then Column (snd entry) else e)"
  by (simp add: tryToSubstituteExpr_def matches_def)

lemma substituteCandidates_no_match:
  "\<forall>entry \<in> set M. \<not> matches e tp s entry \<Longrightarrow> substituteCandidates M e tp s = e"
  by (induction M) (simp_all add: substituteCandidates_Cons tryToSubstituteExpr_matches)

lemma substituteCandidates_cases:
  "substituteCandidates M e tp s = e \<or>
   (\<exists>entry \<in> set M. substituteCandidates M e tp s = Column (snd entry))"
proof (induction M arbitrary: e)
  case Nil
  then show ?case by simp
next
  case (Cons entry M)
  show ?case
  proof (cases "matches e tp s entry")
    case True
    then have "substituteCandidates (entry # M) e tp s = substituteCandidates M (Column (snd entry)) tp s"
      by (simp add: substituteCandidates_Cons tryToSubstituteExpr_matches)
    with Cons.IH [of "Column (snd entry)"] show ?thesis by auto
  next
    case False
    then have "substituteCandidates (entry # M) e tp s = substituteCandidates M e tp s"
      by (simp add: substituteCandidates_Cons tryToSubstituteExpr_matches)
    with Cons.IH [of e] show ?thesis by auto
  qed
qed

lemma tryToSubstituteExpr_type:
  "TypeEqual (ColRetType col) (GetType cand) \<Longrightarrow>
   EvalType (GetType (tryToSubstituteExpr e cand tp s col)) = EvalType (GetType e)"
  by (simp add: tryToSubstituteExpr_def Equal_def TypeEqual_def EvalType_def)

lemma substituteCandidates_type:
  "typeExact M \<Longrightarrow> EvalType (GetType (substituteCandidates M e tp s)) = EvalType (GetType e)"
proof (induction M arbitrary: e)
  case Nil
  then show ?case by simp
next
  case (Cons entry M)
  from Cons.prems have ex: "TypeEqual (ColRetType (snd entry)) (GetType (fst entry))" and rest: "typeExact M"
    by (auto simp: typeExact_def)
  show ?case
    using Cons.IH [OF rest] tryToSubstituteExpr_type [OF ex]
    by (simp add: substituteCandidates_Cons)
qed

lemma rangeOrder_mset: "mset (rangeOrder sched M) = mset M"
  by (simp add: rangeOrder_def)

lemma rangeOrder_set: "set (rangeOrder sched M) = set M"
  using rangeOrder_mset [of sched M] by (rule mset_eq_setD)


lemma rangeOrder_Nil [simp]: "rangeOrder sched [] = []"
  by (simp add: rangeOrder_def)

lemma rangeOrder_listOrder: "rangeOrder listOrder M = M"
  by (simp add: rangeOrder_def listOrder_def)

lemma rangeOrder_any: "mset ord = mset M \<Longrightarrow> rangeOrder (\<lambda>address. ord) M = ord"
  by (simp add: rangeOrder_def)

subsection \<open>The collector\<close>

lemma mapStore_set: "set (mapStore M e c) = insert (e, c) (set M)"
  by (auto simp: mapStore_def)

lemma ColInfo2Col_Some:
  "ColInfo2Col s colInfo = Some c \<Longrightarrow> c \<in> set s \<and> ID c = ColumnID colInfo"
  by (induction s) (auto split: if_splits)

lemma foldErr_Inr_iff:
  assumes "\<And>m x. x \<in> set xs \<Longrightarrow> (\<exists>m'. f m x = Inr m') \<longleftrightarrow> Q x"
  shows "(\<exists>m'. foldErr f m xs = Inr m') \<longleftrightarrow> list_all Q xs"
  using assms
proof (induction xs arbitrary: m)
  case Nil
  then show ?case by simp
next
  case (Cons x xs)
  have hd: "(\<exists>m'. f m x = Inr m') \<longleftrightarrow> Q x"
    using Cons.prems by simp
  have tl: "\<And>m. (\<exists>m'. foldErr f m xs = Inr m') \<longleftrightarrow> list_all Q xs"
    using Cons.IH Cons.prems by simp
  show ?case
  proof (cases "f m x")
    case (Inl e)
    with hd show ?thesis by simp
  next
    case (Inr m1)
    with hd tl [of m1] show ?thesis by auto
  qed
qed

lemma foldErr_set:
  assumes "\<And>m m' x. x \<in> set xs \<Longrightarrow> f m x = Inr m' \<Longrightarrow> set m' = set m \<union> G x"
    and "foldErr f m xs = Inr m'"
  shows "set m' = set m \<union> (\<Union>x \<in> set xs. G x)"
  using assms
proof (induction xs arbitrary: m)
  case Nil
  then show ?case by simp
next
  case (Cons x xs)
  from Cons.prems(2) obtain m1 where m1: "f m x = Inr m1" and rest: "foldErr f m1 xs = Inr m'"
    by (auto split: sum.splits)
  have "set m1 = set m \<union> G x"
    using Cons.prems(1) m1 by simp
  moreover have "set m' = set m1 \<union> (\<Union>x \<in> set xs. G x)"
    using Cons.IH [OF _ rest] Cons.prems(1) by simp
  ultimately show ?case by auto
qed

lemma collectIndexColumn_Inr_iff:
  "(\<exists>m'. collectIndexColumn s ti m idxPart = Inr m') \<longleftrightarrow> indexColumnOK s ti idxPart"
  by (auto simp: collectIndexColumn_def indexColumnOK_def Let_def split: option.splits)

lemma collectAccessPath_Inr_iff:
  "(\<exists>m'. collectAccessPath s ti m p = Inr m') \<longleftrightarrow> accessPathOK s ti p"
  by (simp add: collectAccessPath_def accessPathOK_def foldErr_Inr_iff collectIndexColumn_Inr_iff
      split: option.splits)

lemma candidateEntries_Nil: "candidateEntries s [] ti = []"
  by (simp add: candidateEntries_def)

lemma candidateEntries_Cons:
  "candidateEntries s (p # paths) ti = candidateEntries s [p] ti @ candidateEntries s paths ti"
  by (simp add: candidateEntries_def)

lemma candidateEntries_set:
  "set (candidateEntries s paths ti) = (\<Union>p \<in> set paths. set (candidateEntries s [p] ti))"
  by (induction paths) (simp add: candidateEntries_Nil, subst candidateEntries_Cons, simp)

lemma candidateEntries_path:
  "set (candidateEntries s [p] ti) =
     (if IsTablePath p then {}
      else case Index p of None \<Rightarrow> {}
           | Some idx \<Rightarrow>
               (\<Union>idxPart \<in> set (IndexColumns idx).
                  set (candidateEntries s
                         [\<lparr>IsTablePath = False, Index = Some \<lparr>IndexColumns = [idxPart]\<rparr>\<rparr>] ti)))"
  by (auto simp: candidateEntries_def split: option.splits)

lemma collectIndexColumn_set:
  "collectIndexColumn s ti m idxPart = Inr m' \<Longrightarrow>
   set m' = set m \<union>
     set (candidateEntries s [\<lparr>IsTablePath = False, Index = Some \<lparr>IndexColumns = [idxPart]\<rparr>\<rparr>] ti)"
  by (auto simp: collectIndexColumn_def candidateEntries_def Let_def mapStore_set
      split: option.splits if_splits)

lemma collectAccessPath_set:
  assumes "collectAccessPath s ti m p = Inr m'"
  shows "set m' = set m \<union> set (candidateEntries s [p] ti)"
proof (cases "IsTablePath p")
  case True
  with assms candidateEntries_path [of s p ti] show ?thesis
    by (simp add: collectAccessPath_def)
next
  case False
  with assms obtain idx where idx: "Index p = Some idx"
    and run: "foldErr (collectIndexColumn s ti) m (IndexColumns idx) = Inr m'"
    by (auto simp: collectAccessPath_def split: option.splits)
  show ?thesis
    using foldErr_set [OF collectIndexColumn_set run] False idx candidateEntries_path [of s p ti]
    by simp
qed

lemma planCandidates_Plan:
  "planCandidates (Plan nd s cs) =
     (case nd of DataSource paths ti \<Rightarrow> set (candidateEntries s paths ti) | _ \<Rightarrow> {}) \<union>
     (\<Union>c \<in> set cs. planCandidates c)"
  by (auto simp: planCandidates_def split: planNode.splits)

lemma catalogOK_Plan:
  "catalogOK (Plan nd s cs) \<longleftrightarrow>
     (case nd of DataSource paths ti \<Rightarrow> list_all (accessPathOK s ti) paths | _ \<Rightarrow> True) \<and>
     list_all catalogOK cs"
  by (auto simp: catalogOK_def list_all_iff split: planNode.splits)

lemma collect_set:
  "(\<forall>m'. collectGenerateColumn lp m = Inr m' \<longrightarrow> set m' = set m \<union> planCandidates lp)"
  "(\<forall>m'. collectChildren cs m = Inr m' \<longrightarrow> set m' = set m \<union> (\<Union>c \<in> set cs. planCandidates c))"
proof (induction lp m and cs m rule: collectGenerateColumn_collectChildren.induct)
  case (1 nd s cs exprToColumn)
  show ?case
  proof (intro allI impI)
    fix m'
    assume run: "collectGenerateColumn (Plan nd s cs) exprToColumn = Inr m'"
    then obtain m1 where m1: "collectChildren cs exprToColumn = Inr m1"
      by (auto split: sum.splits)
    have s1: "set m1 = set exprToColumn \<union> (\<Union>c \<in> set cs. planCandidates c)"
      using "1.IH" m1 by simp
    show "set m' = set exprToColumn \<union> planCandidates (Plan nd s cs)"
    proof (cases nd)
      case (DataSource paths ti)
      with run m1 have "foldErr (collectAccessPath s ti) m1 paths = Inr m'"
        by simp
      from foldErr_set [OF collectAccessPath_set this]
      have "set m' = set m1 \<union> set (candidateEntries s paths ti)"
        by (simp add: candidateEntries_set [of s paths ti])
      with s1 DataSource show ?thesis
        by (auto simp: planCandidates_Plan)
    qed (use run m1 s1 in \<open>auto simp: planCandidates_Plan\<close>)
  qed
next
  case (2 exprToColumn)
  then show ?case by simp
next
  case (3 child cs exprToColumn)
  show ?case
  proof (intro allI impI)
    fix m'
    assume run: "collectChildren (child # cs) exprToColumn = Inr m'"
    then obtain m1 where m1: "collectGenerateColumn child exprToColumn = Inr m1"
      and rest: "collectChildren cs m1 = Inr m'"
      by (auto split: sum.splits)
    have "set m1 = set exprToColumn \<union> planCandidates child"
      using "3.IH"(1) m1 by simp
    moreover have "set m' = set m1 \<union> (\<Union>c \<in> set cs. planCandidates c)"
      using "3.IH"(2) [OF m1] rest by simp
    ultimately show "set m' = set exprToColumn \<union> (\<Union>c \<in> set (child # cs). planCandidates c)"
      by auto
  qed
qed

lemma collect_Inr_iff:
  "(\<exists>m'. collectGenerateColumn lp m = Inr m') \<longleftrightarrow> catalogOK lp"
  "(\<exists>m'. collectChildren cs m = Inr m') \<longleftrightarrow> list_all catalogOK cs"
proof (induction lp m and cs m rule: collectGenerateColumn_collectChildren.induct)
  case (1 nd s cs exprToColumn)
  show ?case
  proof (cases "collectChildren cs exprToColumn")
    case (Inl e)
    with "1.IH" show ?thesis
      by (simp add: catalogOK_Plan)
  next
    case (Inr m1)
    with "1.IH" have cs: "list_all catalogOK cs"
      by auto
    show ?thesis
    proof (cases nd)
      case (DataSource paths ti)
      have "(\<exists>m'. foldErr (collectAccessPath s ti) m1 paths = Inr m') \<longleftrightarrow>
            list_all (accessPathOK s ti) paths"
        by (rule foldErr_Inr_iff) (rule collectAccessPath_Inr_iff)
      with Inr cs DataSource show ?thesis
        by (simp add: catalogOK_Plan)
    qed (use Inr cs in \<open>simp_all add: catalogOK_Plan\<close>)
  qed
next
  case (2 exprToColumn)
  then show ?case by simp
next
  case (3 child cs exprToColumn)
  show ?case
  proof (cases "collectGenerateColumn child exprToColumn")
    case (Inl e)
    with "3.IH"(1) show ?thesis by simp
  next
    case (Inr m1)
    with "3.IH"(1) have "catalogOK child" by auto
    with "3.IH"(2) [OF Inr] Inr show ?thesis by simp
  qed
qed

lemma candidateEntries_origin:
  assumes "(e, col) \<in> set (candidateEntries s paths ti)"
  shows "col \<in> set s \<and> VirtualExpr col = Some e \<and> TypeEqual (ColRetType col) (GetType e) \<and>
   (\<exists>colInfo \<in> set (TableColumns ti).
      ColumnID colInfo = ID col \<and> IsGenerated colInfo \<and> \<not> GeneratedStored colInfo)"
proof -
  from assms obtain off where off: "nat off < length (TableColumns ti)"
    and gen: "IsGenerated (TableColumns ti ! nat off)" "\<not> GeneratedStored (TableColumns ti ! nat off)"
    and col: "ColInfo2Col s (TableColumns ti ! nat off) = Some col"
    and ve: "VirtualExpr col = Some e" and te: "TypeEqual (ColRetType col) (GetType e)"
    by (auto simp: candidateEntries_def split: option.splits if_splits)
  from off have "TableColumns ti ! nat off \<in> set (TableColumns ti)"
    by simp
  with ColInfo2Col_Some [OF col] gen ve te show ?thesis
    by auto
qed

text \<open>
  Claim C2. The collector returns normally exactly on the plans whose catalog data are in
  range, and the map it returns holds exactly the candidates of the specification: the
  pairs of a defining expression and its column, for the columns of a data source that are
  a key column of an index access path, generated and not stored, resolved to a schema
  column, with a static type equal to the type of the defining expression. In particular
  every collected column belongs to a table column that is generated and not stored.
\<close>

theorem collector_candidates:
  "((\<exists>m. collectGenerateColumn lp [] = Inr m) \<longleftrightarrow> catalogOK lp) \<and>
   (collectGenerateColumn lp [] = Inr exprToColumn \<longrightarrow>
      set exprToColumn = planCandidates lp \<and>
      (\<forall>(e, col) \<in> set exprToColumn.
         \<exists>(s, paths, ti) \<in> set (dataSources lp).
           col \<in> set s \<and> VirtualExpr col = Some e \<and>
           (\<exists>colInfo \<in> set (TableColumns ti).
              ColumnID colInfo = ID col \<and> IsGenerated colInfo \<and> \<not> GeneratedStored colInfo)))"
proof (intro conjI impI)
  show "(\<exists>m. collectGenerateColumn lp [] = Inr m) \<longleftrightarrow> catalogOK lp"
    by (rule collect_Inr_iff)
next
  assume "collectGenerateColumn lp [] = Inr exprToColumn"
  then show eq: "set exprToColumn = planCandidates lp"
    using collect_set(1) [of lp "[]"] by simp
  show "\<forall>(e, col) \<in> set exprToColumn.
         \<exists>(s, paths, ti) \<in> set (dataSources lp).
           col \<in> set s \<and> VirtualExpr col = Some e \<and>
           (\<exists>colInfo \<in> set (TableColumns ti).
              ColumnID colInfo = ID col \<and> IsGenerated colInfo \<and> \<not> GeneratedStored colInfo)"
    unfolding eq planCandidates_def
    by (auto dest!: candidateEntries_origin)
qed

theorem collector_candidates_witness:
  "catalogOK scanT \<and>
   collectGenerateColumn scanT [] = Inr [(exprF, colC)] \<and>
   planCandidates scanT = {(exprF, colC)} \<and>
   collectGenerateColumn scanStored [] = Inr [] \<and>
   planCandidates scanStored = {}"
proof -
  have r1: "collectGenerateColumn scanT [] = Inr [(exprF, colC)]"
    by (simp add: scan_defs ex_defs)
  have r2: "collectGenerateColumn scanStored [] = Inr []"
    by (simp add: scan_defs ex_defs)
  show ?thesis
    using r1 r2 collector_candidates [of scanT "[(exprF, colC)]"]
      collector_candidates [of scanStored "[]"]
    by auto
qed

subsection \<open>The matcher\<close>

text \<open>
  Claim C1. \<^verbatim>\<open>tryToSubstituteExpr\<close> puts the target column into the slot when the slot
  deep-equals the candidate, the candidate's evaluation-type category is the expected one
  and the column is found in the schema; when one of the three fails the slot keeps its
  expression. The function is total: it has no error to produce.
\<close>

theorem tryToSubstituteExpr_iff:
  "(Equal expr candidateExpr \<and> EvalType (GetType candidateExpr) = tp \<and>
      (\<exists>c \<in> set schema. UniqueID c = UniqueID col)
      \<longrightarrow> tryToSubstituteExpr expr candidateExpr tp schema col = Column col) \<and>
   (\<not> (Equal expr candidateExpr \<and> EvalType (GetType candidateExpr) = tp \<and>
      (\<exists>c \<in> set schema. UniqueID c = UniqueID col))
      \<longrightarrow> tryToSubstituteExpr expr candidateExpr tp schema col = expr)"
  by (auto simp: tryToSubstituteExpr_def ColumnIndex_found)

theorem tryToSubstituteExpr_iff_witness:
  "tryToSubstituteExpr exprF exprF ETInt [colA, colC] colC = Column colC \<and>
   tryToSubstituteExpr five exprF ETInt [colA, colC] colC = five \<and>
   tryToSubstituteExpr exprF exprF ETString [colA, colC] colC = exprF \<and>
   tryToSubstituteExpr exprF exprF ETInt [colA] colC = exprF"
  using tryToSubstituteExpr_iff [of exprF exprF ETInt "[colA, colC]" colC]
    tryToSubstituteExpr_iff [of five exprF ETInt "[colA, colC]" colC]
    tryToSubstituteExpr_iff [of exprF exprF ETString "[colA, colC]" colC]
    tryToSubstituteExpr_iff [of exprF exprF ETInt "[colA]" colC]
  by (simp add: ex_defs)

text \<open>
  Claim C8. In the aggregation branch the check written in the loop body is the matcher:
  one step of it equals \<^verbatim>\<open>tryToSubstituteExpr\<close> on the same slot, candidate, expected type,
  schema and column, the whole loop equals the loop of calls in whatever order it visits
  the map, and so the aggregation node is rewritten as if every argument and every group-by
  item went through the matcher, each in the order of its own loop.
\<close>

theorem aggregation_inline_equivalent:
  "substitute (Plan (LogicalAggregation aggs gbs) s cs) sched M =
     (case substituteChildren cs 0 (subSchedule 1 sched) M of
        Inl e \<Rightarrow> Inl e
      | Inr cs' \<Rightarrow>
          Inr (Plan (LogicalAggregation
                 (mapIdx (\<lambda>i aggFunc. aggFunc\<lparr>AggArgs :=
                            mapIdx (\<lambda>j a. fold (\<lambda>(candidateExpr, column) slot.
                                       tryToSubstituteExpr slot candidateExpr
                                         (EvalType (GetType a)) s column)
                                     (rangeOrder
                                        (subSchedule j (subSchedule i (subSchedule 0
                                           (subSchedule 0 sched)))) M) a)
                              0 (AggArgs aggFunc)\<rparr>) 0 aggs)
                 (mapIdx (\<lambda>j g. fold (\<lambda>(candidateExpr, column) slot.
                               tryToSubstituteExpr slot candidateExpr
                                 (EvalType (GetType g)) s column)
                             (rangeOrder (subSchedule j (subSchedule 1 (subSchedule 0 sched))) M)
                             g) 0 gbs))
               s cs')) \<and>
   (if Equal slot candidateExpr \<and> EvalType (GetType candidateExpr) = tp \<and>
       ColumnIndex s column \<noteq> - 1 then Column column else slot) =
     tryToSubstituteExpr slot candidateExpr tp s column \<and>
   substituteInline ord slot tp s = substituteCandidates ord slot tp s"
  by (simp add: substituteNode_def substituteInline_def substituteCandidates_def
      tryToSubstituteExpr_def split: sum.splits)

theorem aggregation_inline_equivalent_witness:
  "substitute (Plan (LogicalAggregation [\<lparr>AggName = ''sum'', AggArgs = [exprF, five]\<rparr>] [exprF])
                 [colA, colC] []) listOrder mapC =
     Inr (Plan (LogicalAggregation [\<lparr>AggName = ''sum'', AggArgs = [Column colC, five]\<rparr>]
                  [Column colC]) [colA, colC] [])"
  using aggregation_inline_equivalent
    [of "[\<lparr>AggName = ''sum'', AggArgs = [exprF, five]\<rparr>]" "[exprF]" "[colA, colC]" "[]"
       listOrder mapC]
  by (simp add: ex_defs run_defs)

subsection \<open>The expression walker\<close>




text \<open>
  Claim C5. In an IN expression only the first operand is offered the candidates, in
  whatever order the loop visits them, and only when all operands after the first have the
  category of the second one, which is then the expected type; otherwise the expression
  stays as it is.
\<close>

theorem in_list_gate:
  "substituteExpression (ScalarFunction In rt (a0 # a1 # rest)) sched M schema =
     Inr (ScalarFunction In rt
            ((if \<forall>a \<in> set rest. EvalType (GetType a) = EvalType (GetType a1)
              then substituteCandidates (rangeOrder (subSchedule 0 sched) M) a0
                     (EvalType (GetType a1)) schema
              else a0) # a1 # rest)) \<and>
   (mset ord = mset M \<longrightarrow>
      (\<exists>sched'. substituteExpression (ScalarFunction In rt (a0 # a1 # rest)) sched' M schema =
         Inr (ScalarFunction In rt
                ((if \<forall>a \<in> set rest. EvalType (GetType a) = EvalType (GetType a1)
                  then substituteCandidates ord a0 (EvalType (GetType a1)) schema
                  else a0) # a1 # rest))))"
proof (intro conjI impI)
  show closed: "substituteExpression (ScalarFunction In rt (a0 # a1 # rest)) sched M schema =
     Inr (ScalarFunction In rt
            ((if \<forall>a \<in> set rest. EvalType (GetType a) = EvalType (GetType a1)
              then substituteCandidates (rangeOrder (subSchedule 0 sched) M) a0
                     (EvalType (GetType a1)) schema
              else a0) # a1 # rest))" for sched
    by (simp add: list_all_iff Let_def)
  assume "mset ord = mset M"
  then have r: "rangeOrder (subSchedule 0 (\<lambda>address. ord)) M = ord"
    by (simp add: rangeOrder_def subSchedule_def)
  show "\<exists>sched'. substituteExpression (ScalarFunction In rt (a0 # a1 # rest)) sched' M schema =
         Inr (ScalarFunction In rt
                ((if \<forall>a \<in> set rest. EvalType (GetType a) = EvalType (GetType a1)
                  then substituteCandidates ord a0 (EvalType (GetType a1)) schema
                  else a0) # a1 # rest))"
    using closed [of "\<lambda>address. ord"] unfolding r by blast
qed

theorem in_list_gate_witness:
  "substituteExpression (ScalarFunction In tyInt [exprF, five, five, five]) listOrder mapC
     [colA, colC] =
     Inr (ScalarFunction In tyInt [Column colC, five, five, five]) \<and>
   substituteExpression (ScalarFunction In tyInt [exprF, five, strX]) listOrder mapC [colA, colC] =
     Inr (ScalarFunction In tyInt [exprF, five, strX])"
  using in_list_gate [of tyInt exprF five "[five, five]" listOrder mapC "[colA, colC]" "[]"]
    in_list_gate [of tyInt exprF five "[strX]" listOrder mapC "[colA, colC]" "[]"]
  by (simp add: ex_defs run_defs)

text \<open>
  Claim C6. An expression that is not a scalar function, and a scalar function whose name
  is none of the ten the walker knows, comes back as it is: the walker does not descend
  into its arguments. A comparison is looked at operand by operand only, so when no
  candidate equals a whole operand nothing inside the operands is replaced, as in
  \<open>g(f(A)) = 5\<close>.
\<close>

theorem unrecognized_untouched:
  "((\<forall>f rt args. cond = ScalarFunction f rt args \<longrightarrow>
        f \<notin> {EQ, LT, LE, GT, GE, In, Like, LogicOr, LogicAnd, UnaryNot})
      \<longrightarrow> substituteExpression cond sched M schema = Inr cond) \<and>
   (f \<in> {EQ, LT, LE, GT, GE} \<and>
    (\<forall>entry \<in> set M. \<not> Equal a0 (fst entry) \<and> \<not> Equal a1 (fst entry))
      \<longrightarrow> substituteExpression (ScalarFunction f rt (a0 # a1 # rest)) sched M schema =
            Inr (ScalarFunction f rt (a0 # a1 # rest)))"
proof (intro conjI impI)
  assume "\<forall>f rt args. cond = ScalarFunction f rt args \<longrightarrow>
        f \<notin> {EQ, LT, LE, GT, GE, In, Like, LogicOr, LogicAnd, UnaryNot}"
  then show "substituteExpression cond sched M schema = Inr cond"
    by (cases cond) auto
next
  assume h: "f \<in> {EQ, LT, LE, GT, GE} \<and>
    (\<forall>entry \<in> set M. \<not> Equal a0 (fst entry) \<and> \<not> Equal a1 (fst entry))"
  have "substituteCandidates (rangeOrder sc M) a0 tp schema = a0" for tp sc
    using h by (intro substituteCandidates_no_match) (simp add: matches_def rangeOrder_set)
  moreover have "substituteCandidates (rangeOrder sc M) a1 tp schema = a1" for tp sc
    using h by (intro substituteCandidates_no_match) (simp add: matches_def rangeOrder_set)
  ultimately show "substituteExpression (ScalarFunction f rt (a0 # a1 # rest)) sched M schema =
            Inr (ScalarFunction f rt (a0 # a1 # rest))"
    using h by (auto simp: Let_def)
qed

theorem unrecognized_untouched_witness:
  "substituteExpression (ScalarFunction (OtherFunc ''g'') tyInt [exprF]) listOrder mapC
     [colA, colC] =
     Inr (ScalarFunction (OtherFunc ''g'') tyInt [exprF]) \<and>
   substituteExpression
     (ScalarFunction EQ tyInt [ScalarFunction (OtherFunc ''g'') tyInt [exprF], five])
     listOrder mapC [colA, colC] =
     Inr (ScalarFunction EQ tyInt [ScalarFunction (OtherFunc ''g'') tyInt [exprF], five])"
  using unrecognized_untouched
    [where cond = "ScalarFunction (OtherFunc ''g'') tyInt [exprF]" and M = mapC
       and sched = listOrder
       and schema = "[colA, colC]" and f = EQ
       and ?a0.0 = "ScalarFunction (OtherFunc ''g'') tyInt [exprF]" and ?a1.0 = five
       and rt = tyInt and rest = "[]"]
  by (simp add: ex_defs mapC_def)

subsection \<open>The plan walker\<close>

text \<open>
  Claim C7. A projection offers its expressions the candidates with the schema of its first
  child as the scope, not its own schema; a selection, a sort and an aggregation use the
  schema of the node itself. Each slot is named with the order of its own loop.
\<close>

theorem substitution_scope:
  "substitute (Plan (LogicalProjection exprs) s (child # cs)) sched M =
     (case substituteChildren (child # cs) 0 (subSchedule 1 sched) M of
        Inl e \<Rightarrow> Inl e
      | Inr cs' \<Rightarrow>
          Inr (Plan (LogicalProjection
                 (mapIdx (\<lambda>i e. substituteCandidates
                                  (rangeOrder (subSchedule i (subSchedule 0 sched)) M)
                                  e (EvalType (GetType e)) (Schema child)) 0 exprs))
               s cs')) \<and>
   substitute (Plan (LogicalSelection conds) s cs) sched M =
     (case mapErr (\<lambda>i cond. substituteExpression cond (subSchedule i (subSchedule 0 sched)) M s)
             0 conds of
        Inl e \<Rightarrow> Inl e
      | Inr conds' \<Rightarrow>
          (case substituteChildren cs 0 (subSchedule 1 sched) M of
             Inl e \<Rightarrow> Inl e
           | Inr cs' \<Rightarrow> Inr (Plan (LogicalSelection conds') s cs'))) \<and>
   substitute (Plan (LogicalSort items) s cs) sched M =
     (case substituteChildren cs 0 (subSchedule 1 sched) M of
        Inl e \<Rightarrow> Inl e
      | Inr cs' \<Rightarrow>
          Inr (Plan (LogicalSort
                 (mapIdx (\<lambda>i it. it\<lparr>Expr := substituteCandidates
                                       (rangeOrder (subSchedule i (subSchedule 0 sched)) M)
                                       (Expr it) (EvalType (GetType (Expr it))) s\<rparr>) 0 items))
               s cs')) \<and>
   substitute (Plan (LogicalAggregation aggs gbs) s cs) sched M =
     (case substituteChildren cs 0 (subSchedule 1 sched) M of
        Inl e \<Rightarrow> Inl e
      | Inr cs' \<Rightarrow>
          Inr (Plan (LogicalAggregation
                 (mapIdx (\<lambda>i aggFunc. aggFunc\<lparr>AggArgs :=
                            mapIdx (\<lambda>j a. substituteInline
                                      (rangeOrder (subSchedule j (subSchedule i (subSchedule 0
                                         (subSchedule 0 sched)))) M)
                                      a (EvalType (GetType a)) s)
                              0 (AggArgs aggFunc)\<rparr>) 0 aggs)
                 (mapIdx (\<lambda>j g. substituteInline
                            (rangeOrder (subSchedule j (subSchedule 1 (subSchedule 0 sched))) M)
                            g (EvalType (GetType g)) s) 0 gbs))
               s cs'))"
proof -
  have "mapIdx (\<lambda>i e. substituteCandidates (rangeOrder (subSchedule i sc) []) e
          (EvalType (GetType e)) (Schema child)) n exprs = exprs" for sc n
    by (induction exprs arbitrary: n) simp_all
  then show ?thesis
    by (cases "exprs = [] \<or> M = []") (auto simp: substituteNode_def split: sum.splits)
qed

theorem substitution_scope_witness:
  "substitute (Plan (LogicalProjection [exprF]) [colA] [scanT]) listOrder mapC =
     Inr (Plan (LogicalProjection [Column colC]) [colA] [scanT]) \<and>
   substitute (Plan (LogicalSort [\<lparr>Expr = exprF, Desc = False\<rparr>]) [colA] [scanT]) listOrder mapC =
     Inr (Plan (LogicalSort [\<lparr>Expr = exprF, Desc = False\<rparr>]) [colA] [scanT]) \<and>
   substitute (Plan (LogicalSort [\<lparr>Expr = exprF, Desc = False\<rparr>]) [colA, colC] [scanT])
     listOrder mapC =
     Inr (Plan (LogicalSort [\<lparr>Expr = Column colC, Desc = False\<rparr>]) [colA, colC] [scanT])"
  using substitution_scope [of "[exprF]" "[colA]" scanT "[]" listOrder mapC]
    substitution_scope [where items = "[\<lparr>Expr = exprF, Desc = False\<rparr>]" and s = "[colA]"
      and cs = "[scanT]" and M = mapC and sched = listOrder]
    substitution_scope [where items = "[\<lparr>Expr = exprF, Desc = False\<rparr>]" and s = "[colA, colC]"
      and cs = "[scanT]" and M = mapC and sched = listOrder]
  by (simp add: ex_defs run_defs scan_defs)

subsection \<open>A second pass\<close>

lemma typeExact_iff:
  "typeExact M \<longleftrightarrow> (\<forall>entry \<in> set M. TypeEqual (ColRetType (snd entry)) (GetType (fst entry)))"
  by (auto simp: typeExact_def list_all_iff)

lemma noColumnChain_iff:
  "noColumnChain M \<longleftrightarrow> (\<forall>entry \<in> set M. \<forall>entry' \<in> set M. fst entry' \<noteq> Column (snd entry))"
  by (simp add: noColumnChain_def list_all_iff case_prod_beta)

lemma collect_typeExact:
  assumes "collectGenerateColumn lp [] = Inr M"
  shows "typeExact M"
proof -
  have "set M = planCandidates lp"
    using collect_set(1) [of lp "[]"] assms by simp
  then show ?thesis
    unfolding typeExact_iff planCandidates_def
    by (auto dest!: candidateEntries_origin)
qed

lemma substituteCandidates_Column_fixed:
  "\<forall>entry \<in> set M. fst entry \<noteq> Column c \<Longrightarrow> substituteCandidates M (Column c) tp s = Column c"
  by (rule substituteCandidates_no_match) (auto simp: matches_def Equal_def)

lemma substituteCandidates_changed:
  assumes "\<forall>entry \<in> set M. \<forall>entry' \<in> set M. fst entry' \<noteq> Column (snd entry)"
    and "\<exists>entry \<in> set M. matches e tp s entry"
  shows "substituteCandidates M e tp s \<noteq> e"
  using assms
proof (induction M)
  case Nil
  then show ?case by simp
next
  case (Cons x M)
  show ?case
  proof (cases "matches e tp s x")
    case True
    have "\<forall>entry \<in> set M. fst entry \<noteq> Column (snd x)"
      using Cons.prems(1) by simp
    then have "substituteCandidates (x # M) e tp s = Column (snd x)"
      using True
      by (simp add: substituteCandidates_Cons tryToSubstituteExpr_matches
          substituteCandidates_Column_fixed)
    moreover have "e = fst x"
      using True by (simp add: matches_def Equal_def)
    moreover have "fst x \<noteq> Column (snd x)"
      using Cons.prems(1) by simp
    ultimately show ?thesis by simp
  next
    case False
    with Cons.prems(2) have "\<exists>entry \<in> set M. matches e tp s entry"
      by auto
    moreover have "\<forall>entry \<in> set M. \<forall>entry' \<in> set M. fst entry' \<noteq> Column (snd entry)"
      using Cons.prems(1) by simp
    ultimately have "substituteCandidates M e tp s \<noteq> e"
      by (rule Cons.IH [rotated])
    with False show ?thesis
      by (simp add: substituteCandidates_Cons tryToSubstituteExpr_matches)
  qed
qed

lemma substituteCandidates_idem:
  assumes cf: "\<forall>entry \<in> set M1. \<forall>entry' \<in> set M1. fst entry' \<noteq> Column (snd entry)"
    and eq: "set M2 = set M1"
  shows "substituteCandidates M2 (substituteCandidates M1 e tp s) tp s =
         substituteCandidates M1 e tp s"
proof -
  consider (same) "substituteCandidates M1 e tp s = e"
    | (col) entry where "entry \<in> set M1" "substituteCandidates M1 e tp s = Column (snd entry)"
    using substituteCandidates_cases [of M1 e tp s] by auto
  then show ?thesis
  proof cases
    case same
    have "\<not> (\<exists>entry \<in> set M1. matches e tp s entry)"
      using substituteCandidates_changed [OF cf, of e tp s] same by auto
    then have "substituteCandidates M2 e tp s = e"
      using eq by (intro substituteCandidates_no_match) simp
    with same show ?thesis by simp
  next
    case col
    have "\<forall>entry' \<in> set M2. fst entry' \<noteq> Column (snd entry)"
      using cf col(1) eq by simp
    then show ?thesis
      using col(2) by (simp add: substituteCandidates_Column_fixed)
  qed
qed

lemma typeExact_rangeOrder: "typeExact (rangeOrder sched M) = typeExact M"
  by (simp add: typeExact_iff rangeOrder_set)

lemma rangeOrder_idem:
  assumes "\<forall>entry \<in> set M. \<forall>entry' \<in> set M. fst entry' \<noteq> Column (snd entry)"
  shows "substituteCandidates (rangeOrder sc2 M) (substituteCandidates (rangeOrder sc1 M) e tp s)
           tp s = substituteCandidates (rangeOrder sc1 M) e tp s"
  using assms by (intro substituteCandidates_idem) (simp_all add: rangeOrder_set)

lemma rangeOrder_type:
  "typeExact M \<Longrightarrow>
   EvalType (GetType (substituteCandidates (rangeOrder sc M) e tp s)) = EvalType (GetType e)"
  by (simp add: substituteCandidates_type typeExact_rangeOrder)

lemma mapIdx_idem:
  assumes "\<And>i j x. g j (f i x) = f i x"
  shows "mapIdx g m (mapIdx f n xs) = mapIdx f n xs"
  by (induction xs arbitrary: n m) (simp_all add: assms)

lemma mapIdx_Nil_iff [simp]: "mapIdx f n xs = [] \<longleftrightarrow> xs = []"
  by (cases xs) simp_all

lemma mapErr_idem:
  assumes "\<forall>x \<in> set xs. \<forall>i j y. f i x = Inr y \<longrightarrow> g j y = Inr y"
    and "mapErr f n xs = Inr ys"
  shows "mapErr g m ys = Inr ys"
  using assms
proof (induction xs arbitrary: n m ys)
  case Nil
  then show ?case by simp
next
  case (Cons x xs)
  from Cons.prems(2) obtain y ys' where y: "f n x = Inr y"
    and ys': "mapErr f (Suc n) xs = Inr ys'" and ys: "ys = y # ys'"
    by (auto split: sum.splits)
  have "g m y = Inr y"
    using Cons.prems(1) y by simp
  moreover have "mapErr g (Suc m) ys' = Inr ys'"
    using Cons.prems(1) by (intro Cons.IH [OF _ ys']) simp
  ultimately show ?case
    using ys by simp
qed

lemma substituteExpression_idem:
  assumes cf: "\<forall>entry \<in> set M. \<forall>entry' \<in> set M. fst entry' \<noteq> Column (snd entry)"
    and te: "typeExact M"
  shows "substituteExpression e sched1 M s = Inr e' \<Longrightarrow> substituteExpression e' sched2 M s = Inr e'"
  using cf te
proof (induction e sched1 M s arbitrary: e' sched2 rule: substituteExpression.induct)
  case (1 f rt args sched exprToColumn schema)
  note idem = rangeOrder_idem [OF "1.prems"(2)]
  note ty = rangeOrder_type [OF "1.prems"(3)]
  note run = "1.prems"(1)
  consider (cmp) "f = EQ \<or> f = LT \<or> f = LE \<or> f = GT \<or> f = GE"
    | (inl) "f = In" | (like) "f = Like" | (logic) "f = LogicOr \<or> f = LogicAnd"
    | (neg) "f = UnaryNot"
    | (other) "\<not> (f = EQ \<or> f = LT \<or> f = LE \<or> f = GT \<or> f = GE)" "f \<noteq> In" "f \<noteq> Like"
        "\<not> (f = LogicOr \<or> f = LogicAnd)" "f \<noteq> UnaryNot"
    by blast
  then show ?case
  proof cases
    case cmp
    show ?thesis
    proof (cases "exprToColumn = []")
      case True
      with cmp run show ?thesis by auto
    next
      case False
      with cmp run obtain a0 a1 rest where args: "args = a0 # a1 # rest"
        by (auto split: list.splits)
      define b1 where "b1 = substituteCandidates (rangeOrder (subSchedule 0 sched) exprToColumn)
        a1 (EvalType (GetType a0)) schema"
      define b0 where "b0 = substituteCandidates (rangeOrder (subSchedule 1 sched) exprToColumn)
        a0 (EvalType (GetType b1)) schema"
      have e': "e' = ScalarFunction f rt (b0 # b1 # rest)"
        using cmp run False args by (auto simp: Let_def b0_def b1_def)
      have t0: "EvalType (GetType b0) = EvalType (GetType a0)"
        by (simp add: b0_def ty)
      have c1: "substituteCandidates (rangeOrder (subSchedule 0 sched2) exprToColumn) b1
          (EvalType (GetType b0)) schema = b1"
        unfolding t0 b1_def by (rule idem)
      have c0: "substituteCandidates (rangeOrder (subSchedule 1 sched2) exprToColumn) b0
          (EvalType (GetType b1)) schema = b0"
        unfolding b0_def by (rule idem)
      show ?thesis
        using cmp False e' c1 c0 by (auto simp: Let_def)
    qed
  next
    case inl
    with run obtain a0 a1 rest where args: "args = a0 # a1 # rest"
      by (auto split: list.splits)
    show ?thesis
      using inl run args idem by (auto simp: Let_def split: if_splits)
  next
    case like
    with run obtain a0 a1 rest where args: "args = a0 # a1 # rest"
      by (auto split: list.splits)
    show ?thesis
      using like run args idem by auto
  next
    case logic
    then have f: "\<not> (f = EQ \<or> f = LT \<or> f = LE \<or> f = GT \<or> f = GE)" "f \<noteq> In" "f \<noteq> Like"
      by auto
    from logic f run obtain a0 a1 rest where args: "args = a0 # a1 # rest"
      by (auto split: list.splits)
    from logic f run args obtain b0 b1
      where b0: "substituteExpression a0 (subSchedule 0 sched) exprToColumn schema = Inr b0"
        and b1: "substituteExpression a1 (subSchedule 1 sched) exprToColumn schema = Inr b1"
        and e': "e' = ScalarFunction f rt (b0 # b1 # rest)"
      by (auto split: sum.splits)
    have "substituteExpression b0 (subSchedule 0 sched2) exprToColumn schema = Inr b0"
      using "1.IH"(1) [OF f logic args refl b0 "1.prems"(2,3)] .
    moreover have "substituteExpression b1 (subSchedule 1 sched2) exprToColumn schema = Inr b1"
      using "1.IH"(2) [OF f logic args refl b0 b1 "1.prems"(2,3)] .
    ultimately show ?thesis
      using logic f e' by auto
  next
    case neg
    then have f: "\<not> (f = EQ \<or> f = LT \<or> f = LE \<or> f = GT \<or> f = GE)" "f \<noteq> In" "f \<noteq> Like"
      "\<not> (f = LogicOr \<or> f = LogicAnd)"
      by auto
    from neg run obtain a0 rest where args: "args = a0 # rest"
      by (auto split: list.splits)
    from neg run args obtain b0
      where b0: "substituteExpression a0 (subSchedule 0 sched) exprToColumn schema = Inr b0"
        and e': "e' = ScalarFunction f rt (b0 # rest)"
      by (auto split: sum.splits)
    have "substituteExpression b0 (subSchedule 0 sched2) exprToColumn schema = Inr b0"
      using "1.IH"(3) [OF f neg args b0 "1.prems"(2,3)] .
    then show ?thesis
      using neg e' by auto
  next
    case other
    with run show ?thesis by auto
  qed
qed auto

lemma substituteNode_kind:
  "substituteNode nd s cs sched M = Inr nd' \<Longrightarrow>
   (case nd of DataSource paths ti \<Rightarrow> nd' = nd
    | _ \<Rightarrow> (case nd' of DataSource paths ti \<Rightarrow> False | _ \<Rightarrow> True))"
  by (auto simp: substituteNode_def split: planNode.splits sum.splits if_splits list.splits)

lemma substitute_Schema:
  "substitute lp sched M = Inr lp' \<Longrightarrow> Schema lp' = Schema lp"
  by (cases lp) (auto split: sum.splits)

lemma substituteChildren_Schema:
  "substituteChildren cs n sched M = Inr cs' \<Longrightarrow> map Schema cs' = map Schema cs"
  by (induction cs arbitrary: cs' n) (auto split: sum.splits dest: substitute_Schema)

lemma substitute_collect:
  "\<forall>lp' m. substitute lp sched M = Inr lp' \<longrightarrow>
     collectGenerateColumn lp' m = collectGenerateColumn lp m"
  "\<forall>cs' m. substituteChildren cs n sched M = Inr cs' \<longrightarrow>
     collectChildren cs' m = collectChildren cs m"
proof (induction lp sched M and cs n sched M rule: substitute_substituteChildren.induct)
  case (1 nd s cs sched exprToColumn)
  show ?case
  proof (intro allI impI)
    fix lp' m
    assume "substitute (Plan nd s cs) sched exprToColumn = Inr lp'"
    then obtain nd' cs'
      where nd': "substituteNode nd s cs (subSchedule 0 sched) exprToColumn = Inr nd'"
        and cs': "substituteChildren cs 0 (subSchedule 1 sched) exprToColumn = Inr cs'"
        and lp': "lp' = Plan nd' s cs'"
      by (auto split: sum.splits)
    have ch: "collectChildren cs' m = collectChildren cs m"
      using "1.IH" [OF nd'] cs' by simp
    show "collectGenerateColumn lp' m = collectGenerateColumn (Plan nd s cs) m"
      using substituteNode_kind [OF nd'] ch lp'
      by (auto split: planNode.splits sum.splits)
  qed
next
  case (2 n sched exprToColumn)
  then show ?case by simp
next
  case (3 child cs n sched exprToColumn)
  show ?case
  proof (intro allI impI)
    fix cs' m
    assume "substituteChildren (child # cs) n sched exprToColumn = Inr cs'"
    then obtain child' cs''
      where c: "substitute child (subSchedule n sched) exprToColumn = Inr child'"
        and r: "substituteChildren cs (Suc n) sched exprToColumn = Inr cs''"
        and cs': "cs' = child' # cs''"
      by (auto split: sum.splits)
    have "collectGenerateColumn child' m = collectGenerateColumn child m"
      using "3.IH"(1) c by simp
    moreover have "\<And>m. collectChildren cs'' m = collectChildren cs m"
      using "3.IH"(2) [OF c] r by simp
    ultimately show "collectChildren cs' m = collectChildren (child # cs) m"
      using cs' by (simp split: sum.splits)
  qed
qed

lemma substituteNode_idem:
  assumes cf: "\<forall>entry \<in> set M. \<forall>entry' \<in> set M. fst entry' \<noteq> Column (snd entry)"
    and te: "typeExact M"
    and sch: "map Schema cs' = map Schema cs"
    and run: "substituteNode nd s cs sched1 M = Inr nd'"
  shows "substituteNode nd' s cs' sched2 M = Inr nd'"
proof -
  note idem = rangeOrder_idem [OF cf]
  note ty = rangeOrder_type [OF te]
  show ?thesis
  proof (cases nd)
    case (DataSource paths ti)
    with run show ?thesis by (auto simp: substituteNode_def)
  next
    case (LogicalSelection conds)
    with run obtain conds'
      where c: "mapErr (\<lambda>i cond. substituteExpression cond (subSchedule i sched1) M s) 0 conds =
          Inr conds'"
        and nd': "nd' = LogicalSelection conds'"
      by (auto simp: substituteNode_def split: sum.splits)
    have "mapErr (\<lambda>i cond. substituteExpression cond (subSchedule i sched2) M s) 0 conds' =
        Inr conds'"
      using substituteExpression_idem [OF cf te]
      by (intro mapErr_idem [OF _ c]) blast
    with nd' show ?thesis by (simp add: substituteNode_def)
  next
    case (LogicalProjection exprs)
    show ?thesis
    proof (cases "exprs = [] \<or> M = []")
      case True
      with run LogicalProjection show ?thesis
        by (auto simp: substituteNode_def)
    next
      case False
      with run LogicalProjection obtain child rest where cs: "cs = child # rest"
        by (auto simp: substituteNode_def split: list.splits)
      with sch obtain child' rest' where cs': "cs' = child' # rest'"
        and sc: "Schema child' = Schema child"
        by (cases cs') auto
      have nd': "nd' = LogicalProjection
          (mapIdx (\<lambda>i e. substituteCandidates (rangeOrder (subSchedule i sched1) M) e
                            (EvalType (GetType e)) (Schema child)) 0 exprs)"
        using run LogicalProjection False cs by (auto simp: substituteNode_def)
      show ?thesis
        using False cs' sc
        by (simp add: nd' substituteNode_def mapIdx_idem ty idem)
    qed
  next
    case (LogicalSort items)
    with run show ?thesis
      by (auto simp: substituteNode_def mapIdx_idem ty idem)
  next
    case (LogicalAggregation aggs gbs)
    with run show ?thesis
      by (auto simp: substituteNode_def substituteInline_eq mapIdx_idem ty idem)
  next
    case OtherPlan
    with run show ?thesis by (auto simp: substituteNode_def)
  qed
qed

lemma substitute_idem:
  assumes cf: "\<forall>entry \<in> set M. \<forall>entry' \<in> set M. fst entry' \<noteq> Column (snd entry)"
    and te: "typeExact M"
  shows "\<forall>lp' sched2. substitute lp sched1 M = Inr lp' \<longrightarrow> substitute lp' sched2 M = Inr lp'"
    and "\<forall>cs' sched2 m. substituteChildren cs n sched1 M = Inr cs' \<longrightarrow>
           substituteChildren cs' m sched2 M = Inr cs'"
  using cf te
proof (induction lp sched1 M and cs n sched1 M rule: substitute_substituteChildren.induct)
  case (1 nd s cs sched exprToColumn)
  show ?case
  proof (intro allI impI)
    fix lp' sched2
    assume "substitute (Plan nd s cs) sched exprToColumn = Inr lp'"
    then obtain nd' cs'
      where nd': "substituteNode nd s cs (subSchedule 0 sched) exprToColumn = Inr nd'"
        and cs': "substituteChildren cs 0 (subSchedule 1 sched) exprToColumn = Inr cs'"
        and lp': "lp' = Plan nd' s cs'"
      by (auto split: sum.splits)
    have "substituteNode nd' s cs' (subSchedule 0 sched2) exprToColumn = Inr nd'"
      using substituteNode_idem [OF "1.prems" _ nd'] substituteChildren_Schema [OF cs']
      by simp
    moreover have "substituteChildren cs' 0 (subSchedule 1 sched2) exprToColumn = Inr cs'"
      using "1.IH" [OF nd' "1.prems"] cs' by simp
    ultimately show "substitute lp' sched2 exprToColumn = Inr lp'"
      using lp' by simp
  qed
next
  case (2 n sched exprToColumn)
  then show ?case by simp
next
  case (3 child cs n sched exprToColumn)
  show ?case
  proof (intro allI impI)
    fix cs' sched2 m
    assume "substituteChildren (child # cs) n sched exprToColumn = Inr cs'"
    then obtain child' cs''
      where c: "substitute child (subSchedule n sched) exprToColumn = Inr child'"
        and r: "substituteChildren cs (Suc n) sched exprToColumn = Inr cs''"
        and cs': "cs' = child' # cs''"
      by (auto split: sum.splits)
    have "substitute child' (subSchedule m sched2) exprToColumn = Inr child'"
      using "3.IH"(1) [OF "3.prems"] c by simp
    moreover have "substituteChildren cs'' (Suc m) sched2 exprToColumn = Inr cs''"
      using "3.IH"(2) [OF c "3.prems"] r by simp
    ultimately show "substituteChildren cs' m sched2 exprToColumn = Inr cs'"
      using cs' by simp
  qed
qed

subsection \<open>Categories of the slots\<close>

lemma map_mapIdx:
  assumes "\<And>i x. h (f i x) = h x"
  shows "map h (mapIdx f n xs) = map h xs"
  by (induction xs arbitrary: n) (simp_all add: assms)

lemma mapErr_map:
  assumes "\<forall>x \<in> set xs. \<forall>i y. f i x = Inr y \<longrightarrow> h y = h x"
    and "mapErr f n xs = Inr ys"
  shows "map h ys = map h xs"
  using assms
proof (induction xs arbitrary: n ys)
  case Nil
  then show ?case by simp
next
  case (Cons x xs)
  from Cons.prems(2) obtain y ys' where y: "f n x = Inr y"
    and ys': "mapErr f (Suc n) xs = Inr ys'" and ys: "ys = y # ys'"
    by (auto split: sum.splits)
  have "h y = h x"
    using Cons.prems(1) y by simp
  moreover have "map h ys' = map h xs"
    using Cons.prems(1) by (intro Cons.IH [OF _ ys']) simp
  ultimately show ?case
    using ys by simp
qed

lemma substituteExpression_categories:
  assumes "typeExact M"
  shows "substituteExpression e sched M s = Inr e' \<Longrightarrow> slotCategories e' = slotCategories e"
  using assms
proof (induction e sched M s arbitrary: e' rule: substituteExpression.induct)
  case (1 f rt args sched exprToColumn schema)
  note ty = rangeOrder_type [OF "1.prems"(2)]
  note run = "1.prems"(1)
  consider (cmp) "f = EQ \<or> f = LT \<or> f = LE \<or> f = GT \<or> f = GE"
    | (inl) "f = In" | (like) "f = Like" | (logic) "f = LogicOr \<or> f = LogicAnd"
    | (neg) "f = UnaryNot"
    | (other) "\<not> (f = EQ \<or> f = LT \<or> f = LE \<or> f = GT \<or> f = GE)" "f \<noteq> In" "f \<noteq> Like"
        "\<not> (f = LogicOr \<or> f = LogicAnd)" "f \<noteq> UnaryNot"
    by blast
  then show ?case
  proof cases
    case cmp
    with run ty show ?thesis
      by (auto simp: Let_def split: if_splits list.splits)
  next
    case inl
    with run ty show ?thesis
      by (auto simp: Let_def split: if_splits list.splits)
  next
    case like
    with run ty show ?thesis
      by (auto simp: Let_def split: if_splits list.splits)
  next
    case logic
    then have f: "\<not> (f = EQ \<or> f = LT \<or> f = LE \<or> f = GT \<or> f = GE)" "f \<noteq> In" "f \<noteq> Like"
      by auto
    from logic f run obtain a0 a1 rest where args: "args = a0 # a1 # rest"
      by (auto split: list.splits)
    from logic f run args obtain b0 b1
      where b0: "substituteExpression a0 (subSchedule 0 sched) exprToColumn schema = Inr b0"
        and b1: "substituteExpression a1 (subSchedule 1 sched) exprToColumn schema = Inr b1"
        and e': "e' = ScalarFunction f rt (b0 # b1 # rest)"
      by (auto split: sum.splits)
    have "slotCategories b0 = slotCategories a0"
      using "1.IH"(1) [OF f logic args refl b0 "1.prems"(2)] .
    moreover have "slotCategories b1 = slotCategories a1"
      using "1.IH"(2) [OF f logic args refl b0 b1 "1.prems"(2)] .
    ultimately show ?thesis
      using logic f e' args by auto
  next
    case neg
    then have f: "\<not> (f = EQ \<or> f = LT \<or> f = LE \<or> f = GT \<or> f = GE)" "f \<noteq> In" "f \<noteq> Like"
      "\<not> (f = LogicOr \<or> f = LogicAnd)"
      by auto
    from neg run obtain a0 rest where args: "args = a0 # rest"
      by (auto split: list.splits)
    from neg run args obtain b0
      where b0: "substituteExpression a0 (subSchedule 0 sched) exprToColumn schema = Inr b0"
        and e': "e' = ScalarFunction f rt (b0 # rest)"
      by (auto split: sum.splits)
    have "slotCategories b0 = slotCategories a0"
      using "1.IH"(3) [OF f neg args b0 "1.prems"(2)] .
    then show ?thesis
      using neg e' args by auto
  next
    case other
    with run show ?thesis by auto
  qed
qed auto

lemma substituteNode_categories:
  assumes te: "typeExact M" and run: "substituteNode nd s cs sched M = Inr nd'"
  shows "nodeCategories nd' = nodeCategories nd"
proof -
  note ty = rangeOrder_type [OF te]
  show ?thesis
  proof (cases nd)
    case (LogicalSelection conds)
    with run obtain conds'
      where c: "mapErr (\<lambda>i cond. substituteExpression cond (subSchedule i sched) M s) 0 conds =
          Inr conds'"
        and nd': "nd' = LogicalSelection conds'"
      by (auto simp: substituteNode_def split: sum.splits)
    have "map slotCategories conds' = map slotCategories conds"
      using substituteExpression_categories [OF te]
      by (intro mapErr_map [OF _ c]) blast
    with nd' LogicalSelection show ?thesis
      by (simp add: nodeCategories_def)
  next
    case (LogicalProjection exprs)
    have "map (\<lambda>e. EvalType (GetType e))
            (mapIdx (\<lambda>i e. substituteCandidates (rangeOrder (subSchedule i sched) M) e
                              (EvalType (GetType e)) sch) 0 exprs) =
          map (\<lambda>e. EvalType (GetType e)) exprs" for sch
      by (rule map_mapIdx) (simp add: ty)
    with run LogicalProjection show ?thesis
      by (auto simp: substituteNode_def nodeCategories_def split: if_splits list.splits)
  next
    case (LogicalSort items)
    have "map (\<lambda>it. EvalType (GetType (Expr it)))
            (mapIdx (\<lambda>i it. it\<lparr>Expr := substituteCandidates (rangeOrder (subSchedule i sched) M)
                                  (Expr it) (EvalType (GetType (Expr it))) s\<rparr>) 0 items) =
          map (\<lambda>it. EvalType (GetType (Expr it))) items"
      by (rule map_mapIdx) (simp add: ty)
    with run LogicalSort show ?thesis
      by (auto simp: substituteNode_def nodeCategories_def)
  next
    case (LogicalAggregation aggs gbs)
    have inner: "map (\<lambda>a. EvalType (GetType a))
            (mapIdx (\<lambda>j a. substituteCandidates (rangeOrder (subSchedule j sc) M) a
                              (EvalType (GetType a)) s) 0 xs) =
          map (\<lambda>a. EvalType (GetType a)) xs" for sc xs
      by (rule map_mapIdx) (simp add: ty)
    have "map (\<lambda>aggFunc. map (\<lambda>a. EvalType (GetType a)) (AggArgs aggFunc))
            (mapIdx (\<lambda>i aggFunc. aggFunc\<lparr>AggArgs :=
                       mapIdx (\<lambda>j a. substituteCandidates
                                 (rangeOrder (subSchedule j (subSchedule i (subSchedule 0 sched))) M)
                                 a (EvalType (GetType a)) s) 0 (AggArgs aggFunc)\<rparr>) 0 aggs) =
          map (\<lambda>aggFunc. map (\<lambda>a. EvalType (GetType a)) (AggArgs aggFunc)) aggs"
      by (rule map_mapIdx) (simp add: inner)
    with run LogicalAggregation inner show ?thesis
      by (auto simp: substituteNode_def nodeCategories_def substituteInline_eq)
  qed (use run in \<open>auto simp: substituteNode_def\<close>)
qed

lemma substitute_categories:
  assumes "typeExact M"
  shows "\<forall>lp'. substitute lp sched M = Inr lp' \<longrightarrow> planCategories lp' = planCategories lp"
    and "\<forall>cs'. substituteChildren cs n sched M = Inr cs' \<longrightarrow>
           concat (map planCategories cs') = concat (map planCategories cs)"
  using assms
proof (induction lp sched M and cs n sched M rule: substitute_substituteChildren.induct)
  case (1 nd s cs sched exprToColumn)
  show ?case
  proof (intro allI impI)
    fix lp'
    assume "substitute (Plan nd s cs) sched exprToColumn = Inr lp'"
    then obtain nd' cs'
      where nd': "substituteNode nd s cs (subSchedule 0 sched) exprToColumn = Inr nd'"
        and cs': "substituteChildren cs 0 (subSchedule 1 sched) exprToColumn = Inr cs'"
        and lp': "lp' = Plan nd' s cs'"
      by (auto split: sum.splits)
    have "nodeCategories nd' = nodeCategories nd"
      using substituteNode_categories [OF "1.prems" nd'] .
    moreover have "concat (map planCategories cs') = concat (map planCategories cs)"
      using "1.IH" [OF nd' "1.prems"] cs' by simp
    ultimately show "planCategories lp' = planCategories (Plan nd s cs)"
      using lp' by simp
  qed
next
  case (2 n sched exprToColumn)
  then show ?case by simp
next
  case (3 child cs n sched exprToColumn)
  show ?case
  proof (intro allI impI)
    fix cs'
    assume "substituteChildren (child # cs) n sched exprToColumn = Inr cs'"
    then obtain child' cs''
      where c: "substitute child (subSchedule n sched) exprToColumn = Inr child'"
        and r: "substituteChildren cs (Suc n) sched exprToColumn = Inr cs''"
        and cs': "cs' = child' # cs''"
      by (auto split: sum.splits)
    have "planCategories child' = planCategories child"
      using "3.IH"(1) [OF "3.prems"] c by simp
    moreover have "concat (map planCategories cs'') = concat (map planCategories cs)"
      using "3.IH"(2) [OF c "3.prems"] r by simp
    ultimately show "concat (map planCategories cs') = concat (map planCategories (child # cs))"
      using cs' by simp
  qed
qed

subsection \<open>Normal return of the walker\<close>

lemma substituteExpression_returns:
  "operandsPresent e \<Longrightarrow> \<exists>e'. substituteExpression e sched M s = Inr e'"
proof (induction e sched M s rule: substituteExpression.induct)
  case (1 f rt args sched exprToColumn schema)
  consider (cmp) "f = EQ \<or> f = LT \<or> f = LE \<or> f = GT \<or> f = GE \<or> f = In \<or> f = Like"
    | (logic) "f = LogicOr \<or> f = LogicAnd"
    | (neg) "f = UnaryNot"
    | (other) "\<not> (f = EQ \<or> f = LT \<or> f = LE \<or> f = GT \<or> f = GE)" "f \<noteq> In" "f \<noteq> Like"
        "\<not> (f = LogicOr \<or> f = LogicAnd)" "f \<noteq> UnaryNot"
    by blast
  then show ?case
  proof cases
    case cmp
    with "1.prems" obtain a0 a1 rest where "args = a0 # a1 # rest"
      by (cases args; cases "tl args") auto
    with cmp show ?thesis
      by (auto simp: Let_def)
  next
    case logic
    then have f: "\<not> (f = EQ \<or> f = LT \<or> f = LE \<or> f = GT \<or> f = GE)" "f \<noteq> In" "f \<noteq> Like"
      by auto
    from logic f "1.prems" obtain a0 a1 rest where args: "args = a0 # a1 # rest"
      and ok: "operandsPresent a0" "operandsPresent a1"
      by (auto split: list.splits)
    from "1.IH"(1) [OF f logic args refl ok(1)]
    obtain b0 where b0: "substituteExpression a0 (subSchedule 0 sched) exprToColumn schema = Inr b0"
      by auto
    from "1.IH"(2) [OF f logic args refl b0 ok(2)]
    obtain b1 where b1: "substituteExpression a1 (subSchedule 1 sched) exprToColumn schema = Inr b1"
      by auto
    from logic f args b0 b1 show ?thesis
      by auto
  next
    case neg
    then have f: "\<not> (f = EQ \<or> f = LT \<or> f = LE \<or> f = GT \<or> f = GE)" "f \<noteq> In" "f \<noteq> Like"
      "\<not> (f = LogicOr \<or> f = LogicAnd)"
      by auto
    from neg f "1.prems" obtain a0 rest where args: "args = a0 # rest"
      and ok: "operandsPresent a0"
      by (auto split: list.splits)
    from "1.IH"(3) [OF f neg args ok]
    obtain b0 where b0: "substituteExpression a0 (subSchedule 0 sched) exprToColumn schema = Inr b0"
      by auto
    from neg args b0 show ?thesis
      by auto
  next
    case other
    then show ?thesis by auto
  qed
qed auto

lemma mapErr_returns:
  "\<forall>x \<in> set xs. \<forall>i. \<exists>y. f i x = Inr y \<Longrightarrow> \<exists>ys. mapErr f n xs = Inr ys"
proof (induction xs arbitrary: n)
  case Nil
  then show ?case by simp
next
  case (Cons x xs)
  from Cons.prems have "\<exists>y. f n x = Inr y"
    by simp
  then obtain y where y: "f n x = Inr y"
    by blast
  from Cons.prems have "\<forall>x \<in> set xs. \<forall>i. \<exists>y. f i x = Inr y"
    by simp
  from Cons.IH [OF this, of "Suc n"] obtain ys where "mapErr f (Suc n) xs = Inr ys"
    by blast
  with y show ?case by simp
qed

lemma substituteNode_returns:
  assumes "case nd of LogicalSelection conds \<Rightarrow> list_all operandsPresent conds
           | LogicalProjection exprs \<Rightarrow> cs \<noteq> [] | _ \<Rightarrow> True"
  shows "\<exists>nd'. substituteNode nd s cs sched M = Inr nd'"
proof (cases nd)
  case (LogicalSelection conds)
  with assms have "\<forall>cond \<in> set conds. \<forall>i. \<exists>y.
      substituteExpression cond (subSchedule i sched) M s = Inr y"
    by (auto simp: list_all_iff intro: substituteExpression_returns)
  from mapErr_returns [OF this, of 0] obtain conds'
    where "mapErr (\<lambda>i cond. substituteExpression cond (subSchedule i sched) M s) 0 conds =
      Inr conds'"
    by blast
  with LogicalSelection show ?thesis
    by (simp add: substituteNode_def)
next
  case (LogicalProjection exprs)
  with assms show ?thesis
    by (auto simp: substituteNode_def split: list.splits)
qed (auto simp: substituteNode_def)

lemma substitute_returns:
  "planOK lp \<longrightarrow> (\<exists>lp'. substitute lp sched M = Inr lp')"
  "list_all planOK cs \<longrightarrow> (\<exists>cs'. substituteChildren cs n sched M = Inr cs')"
proof (induction lp sched M and cs n sched M rule: substitute_substituteChildren.induct)
  case (1 nd s cs sched exprToColumn)
  show ?case
  proof
    assume ok: "planOK (Plan nd s cs)"
    then obtain nd' where nd': "substituteNode nd s cs (subSchedule 0 sched) exprToColumn = Inr nd'"
      using substituteNode_returns
        [where nd = nd and cs = cs and s = s and M = exprToColumn and sched = "subSchedule 0 sched"]
      by auto
    from "1.IH" [OF nd'] ok
    obtain cs' where "substituteChildren cs 0 (subSchedule 1 sched) exprToColumn = Inr cs'"
      by auto
    with nd' show "\<exists>lp'. substitute (Plan nd s cs) sched exprToColumn = Inr lp'"
      by simp
  qed
next
  case (2 n sched exprToColumn)
  then show ?case by simp
next
  case (3 child cs n sched exprToColumn)
  show ?case
  proof
    assume ok: "list_all planOK (child # cs)"
    with "3.IH"(1)
    obtain child' where c: "substitute child (subSchedule n sched) exprToColumn = Inr child'"
      by auto
    from "3.IH"(2) [OF c] ok
    obtain cs' where "substituteChildren cs (Suc n) sched exprToColumn = Inr cs'"
      by auto
    with c show "\<exists>cs'. substituteChildren (child # cs) n sched exprToColumn = Inr cs'"
      by simp
  qed
qed

subsection \<open>The entry point\<close>

text \<open>
  Claim C3. When the collector returns an empty map, \<^verbatim>\<open>optimize\<close> returns its input plan,
  the same value, and returns normally. So does it on every plan with catalog data in
  range and no candidate in the sense of the specification.
\<close>

theorem empty_map_short_circuit:
  "(collectGenerateColumn lp [] = Inr [] \<longrightarrow> optimize sched lp = Inr lp) \<and>
   (catalogOK lp \<and> planCandidates lp = {} \<longrightarrow> optimize sched lp = Inr lp)"
proof (intro conjI impI)
  assume "collectGenerateColumn lp [] = Inr []"
  then show "optimize sched lp = Inr lp"
    by (simp add: optimize_def)
next
  assume h: "catalogOK lp \<and> planCandidates lp = {}"
  then obtain m where m: "collectGenerateColumn lp [] = Inr m"
    using collect_Inr_iff(1) [of lp "[]"] by auto
  then have "set m = {}"
    using collect_set(1) [of lp "[]"] h by simp
  with m show "optimize sched lp = Inr lp"
    by (simp add: optimize_def)
qed

theorem empty_map_short_circuit_witness:
  "collectGenerateColumn
     (Plan (LogicalSelection [ScalarFunction EQ tyInt [exprF, five]]) [colA, colC, colS]
        [scanStored]) [] = Inr [] \<and>
   optimize listOrder
     (Plan (LogicalSelection [ScalarFunction EQ tyInt [exprF, five]]) [colA, colC, colS]
        [scanStored]) =
     Inr (Plan (LogicalSelection [ScalarFunction EQ tyInt [exprF, five]]) [colA, colC, colS]
            [scanStored])"
proof -
  have c: "collectGenerateColumn
     (Plan (LogicalSelection [ScalarFunction EQ tyInt [exprF, five]]) [colA, colC, colS]
        [scanStored]) [] = Inr []"
    by (simp add: scan_defs)
  show ?thesis
    using c empty_map_short_circuit
      [of "Plan (LogicalSelection [ScalarFunction EQ tyInt [exprF, five]]) [colA, colC, colS]
             [scanStored]" listOrder]
    by simp
qed

text \<open>
  Claim C9, as amended. When no candidate column is defined as a bare reference to another
  candidate column, a second run of \<^verbatim>\<open>optimize\<close> returns the plan of the first run. This
  holds whatever order each loop of either run visits the map in: the first run leaves the
  data sources as they are, so the second collects the same entries, and it rewrites no
  slot again. The first run returns normally on every plan whose functions have the
  operands the walker reads and whose projections have a child.
\<close>

theorem optimize_idempotent:
  assumes "collectGenerateColumn lp [] = Inr M" and "noColumnChain M"
  shows "(optimize sched1 lp = Inr lp' \<longrightarrow> optimize sched2 lp' = Inr lp') \<and>
         (substitute lp sched1 M = Inr lp' \<longrightarrow>
            collectGenerateColumn lp' [] = Inr M \<and> substitute lp' sched2 M = Inr lp') \<and>
         (planOK lp \<longrightarrow> (\<exists>p. optimize sched1 lp = Inr p))"
proof -
  have te: "typeExact M"
    using assms(1) by (rule collect_typeExact)
  have cf: "\<forall>entry \<in> set M. \<forall>entry' \<in> set M. fst entry' \<noteq> Column (snd entry)"
    using assms(2) by (simp add: noColumnChain_iff)
  have general: "collectGenerateColumn lp' [] = Inr M \<and> substitute lp' sched2 M = Inr lp'"
    if run: "substitute lp sched1 M = Inr lp'"
  proof
    show "collectGenerateColumn lp' [] = Inr M"
      using substitute_collect(1) [of lp sched1 M] run assms(1) by simp
    show "substitute lp' sched2 M = Inr lp'"
      using substitute_idem(1) [OF cf te, of lp sched1] run by simp
  qed
  have "optimize sched2 lp' = Inr lp'" if opt: "optimize sched1 lp = Inr lp'"
  proof (cases "M = []")
    case True
    with opt assms(1) have "lp' = lp"
      by (simp add: optimize_def)
    with True assms(1) show ?thesis
      by (simp add: optimize_def)
  next
    case False
    with opt assms(1) have "substitute lp sched1 M = Inr lp'"
      by (simp add: optimize_def)
    from general [OF this] False show ?thesis
      by (simp add: optimize_def)
  qed
  moreover have "\<exists>p. optimize sched1 lp = Inr p" if "planOK lp"
    using substitute_returns(1) [of lp sched1 M] that assms(1)
    by (auto simp: optimize_def)
  ultimately show ?thesis
    using general by blast
qed

theorem optimize_idempotent_witness:
  "optimize leftLoopReversed
     (Plan (LogicalSelection [ScalarFunction EQ tyInt [exprF, exprF]]) [colA, colC, colC2]
        [scanTwin]) =
     Inr (Plan (LogicalSelection [ScalarFunction EQ tyInt [Column colC2, Column colC]])
            [colA, colC, colC2] [scanTwin]) \<and>
   optimize listOrder
     (Plan (LogicalSelection [ScalarFunction EQ tyInt [Column colC2, Column colC]])
        [colA, colC, colC2] [scanTwin]) =
     Inr (Plan (LogicalSelection [ScalarFunction EQ tyInt [Column colC2, Column colC]])
            [colA, colC, colC2] [scanTwin])"
proof -
  have c: "collectGenerateColumn
      (Plan (LogicalSelection [ScalarFunction EQ tyInt [exprF, exprF]]) [colA, colC, colC2]
         [scanTwin]) [] = Inr mapTwin"
    by (simp add: scan_defs ex_defs run_defs)
  have n: "noColumnChain mapTwin"
    by (simp add: noColumnChain_def mapTwin_def ex_defs)
  have o: "optimize leftLoopReversed
     (Plan (LogicalSelection [ScalarFunction EQ tyInt [exprF, exprF]]) [colA, colC, colC2]
        [scanTwin]) =
     Inr (Plan (LogicalSelection [ScalarFunction EQ tyInt [Column colC2, Column colC]])
            [colA, colC, colC2] [scanTwin])"
    by (simp add: optimize_def c) (simp add: ex_defs run_defs scan_defs)
  show ?thesis
    using o optimize_idempotent [OF c n, of leftLoopReversed
        "Plan (LogicalSelection [ScalarFunction EQ tyInt [Column colC2, Column colC]])
            [colA, colC, colC2] [scanTwin]" listOrder]
    by simp
qed

text \<open>
  Claim C9 as stated fails on a table with \<open>C\<close> defined as \<open>f(A)\<close> and \<open>D\<close> defined as
  \<open>C\<close>, both indexed, when the loops visit the entry of \<open>D\<close> first: a sort on \<open>f(A)\<close>
  becomes a sort on \<open>C\<close> in the first run and a sort on \<open>D\<close> in the second.
\<close>

theorem optimize_idempotent_counterexample:
  "optimize listOrder (sortBy exprF [colA, colC, colS, colD] scanChain) =
     Inr (sortBy (Column colC) [colA, colC, colS, colD] scanChain) \<and>
   optimize listOrder (sortBy (Column colC) [colA, colC, colS, colD] scanChain) =
     Inr (sortBy (Column colD) [colA, colC, colS, colD] scanChain) \<and>
   sortBy (Column colD) [colA, colC, colS, colD] scanChain \<noteq>
     sortBy (Column colC) [colA, colC, colS, colD] scanChain"
proof -
  have c: "\<And>e. collectGenerateColumn (sortBy e [colA, colC, colS, colD] scanChain) [] =
      Inr [(Column colC, colD), (exprF, colC)]"
    by (simp add: scan_defs ex_defs run_defs)
  show ?thesis
    by (simp add: optimize_def c) (simp add: ex_defs run_defs scan_defs)
qed

text \<open>
  Claim C10. With a map built by the collector, a substitution leaves the evaluation-type
  category of its slot as it was: the column the matcher puts into a slot has the category
  of the expression it replaces, every loop over the map, in whatever order, returns a slot
  of the category it started with, and after \<^verbatim>\<open>optimize\<close> the slots of all plan nodes have
  the categories they had before.
\<close>

theorem substitution_preserves_category:
  assumes "collectGenerateColumn lp [] = Inr M"
  shows "(\<forall>(candidateExpr, col) \<in> set M.
            matches slot tp schema (candidateExpr, col) \<longrightarrow>
              tryToSubstituteExpr slot candidateExpr tp schema col = Column col \<and>
              EvalType (GetType (Column col)) = EvalType (GetType slot)) \<and>
         EvalType (GetType (substituteCandidates M slot tp schema)) = EvalType (GetType slot) \<and>
         EvalType (GetType (substituteInline M slot tp schema)) = EvalType (GetType slot) \<and>
         (mset ord = mset M \<longrightarrow>
            EvalType (GetType (substituteCandidates ord slot tp schema)) =
              EvalType (GetType slot) \<and>
            EvalType (GetType (substituteInline ord slot tp schema)) =
              EvalType (GetType slot)) \<and>
         (optimize sched lp = Inr lp' \<longrightarrow> planCategories lp' = planCategories lp)"
proof -
  have te: "typeExact M"
    using assms by (rule collect_typeExact)
  have "tryToSubstituteExpr slot candidateExpr tp schema col = Column col \<and>
        EvalType (GetType (Column col)) = EvalType (GetType slot)"
    if "(candidateExpr, col) \<in> set M" "matches slot tp schema (candidateExpr, col)"
    for candidateExpr col
  proof -
    have "TypeEqual (ColRetType col) (GetType candidateExpr)"
      using te that(1) by (auto simp: typeExact_iff)
    from tryToSubstituteExpr_type [OF this, of slot tp schema]
      tryToSubstituteExpr_matches [of slot "(candidateExpr, col)" tp schema] that(2)
    show ?thesis by simp
  qed
  moreover have "planCategories lp' = planCategories lp" if "optimize sched lp = Inr lp'"
    using that assms substitute_categories(1) [OF te, of lp sched]
    by (auto simp: optimize_def split: if_splits)
  moreover have "EvalType (GetType (substituteCandidates ord slot tp schema)) =
      EvalType (GetType slot)" if "mset ord = mset M"
  proof -
    have "set ord = set M"
      using that by (rule mset_eq_setD)
    with te have "typeExact ord"
      by (simp add: typeExact_iff)
    then show ?thesis
      by (rule substituteCandidates_type)
  qed
  ultimately show ?thesis
    using substituteCandidates_type [OF te] by (auto simp: substituteInline_eq)
qed

theorem substitution_preserves_category_witness:
  "tryToSubstituteExpr exprF exprF ETInt [colA, colC] colC = Column colC \<and>
   EvalType (GetType (Column colC)) = EvalType (GetType exprF) \<and>
   planCategories (sortBy (Column colC) [colA, colC, colS] scanT) = [ETInt] \<and>
   planCategories (sortBy exprF [colA, colC, colS] scanT) = [ETInt]"
proof -
  have c: "collectGenerateColumn (sortBy exprF [colA, colC, colS] scanT) [] = Inr mapC"
    by (simp add: scan_defs ex_defs run_defs)
  have o: "optimize listOrder (sortBy exprF [colA, colC, colS] scanT) =
     Inr (sortBy (Column colC) [colA, colC, colS] scanT)"
    by (simp add: optimize_def c) (simp add: ex_defs run_defs scan_defs)
  have m: "matches exprF ETInt [colA, colC] (exprF, colC)"
    by (simp add: matches_def ex_defs)
  have p: "planCategories (sortBy exprF [colA, colC, colS] scanT) = [ETInt]"
    by (simp add: sortBy_def scan_defs nodeCategories_def ex_defs)
  show ?thesis
    using substitution_preserves_category [OF c, of exprF ETInt "[colA, colC]" mapC listOrder
        "sortBy (Column colC) [colA, colC, colS] scanT"] o m p
    by (simp add: mapC_def)
qed

end
